theory Spec2Isabelle
  imports Main "HOL-Library.Char_ord" "HOL-Library.List_Lexorder" "HOL-Library.Multiset"
begin

section \<open>Python values and string primitives\<close>

text \<open>
  The validator is a Python program. Its strings are modelled as HOL strings, its lists of
  strings as \<open>string list\<close>, its dictionaries with literal keys as association lists, and the
  dictionaries keyed by item identifier as maps. An exception is a value of type \<open>error\<close>;
  a function that can raise returns \<open>error + 'a\<close>.

  Case conversion and whitespace follow Python on ASCII characters; a character outside
  ASCII is treated as an uncased non-space character. The theorems on normalisation (the
  idempotence of \<open>tag_case\<close> and the second run of \<open>tags_check\<close>) are stated for ASCII
  strings.
\<close>

datatype error = KeyError | IndexError | TypeError | ValueError | AttributeError

datatype pyval =
    PNone
  | PNaN
  | PStr string
  | PStrList "string list"
  | PDict "(string \<times> pyval) list"

text \<open>Python truthiness: \<open>None\<close>, the empty string, list and dictionary are false.\<close>

fun truthy :: "pyval \<Rightarrow> bool" where
  "truthy PNone = False"
| "truthy PNaN = True"
| "truthy (PStr s) = (s \<noteq> [])"
| "truthy (PStrList xs) = (xs \<noteq> [])"
| "truthy (PDict kvs) = (kvs \<noteq> [])"

definition is_ascii :: "char \<Rightarrow> bool" where
  "is_ascii c = ((of_char c :: nat) < 128)"

definition ascii_str :: "string \<Rightarrow> bool" where
  "ascii_str s = list_all is_ascii s"

definition isupper_c :: "char \<Rightarrow> bool" where
  "isupper_c c = (65 \<le> (of_char c :: nat) \<and> (of_char c :: nat) \<le> 90)"

definition islower_c :: "char \<Rightarrow> bool" where
  "islower_c c = (97 \<le> (of_char c :: nat) \<and> (of_char c :: nat) \<le> 122)"

definition iscased_c :: "char \<Rightarrow> bool" where
  "iscased_c c = (isupper_c c \<or> islower_c c)"

text \<open>\<open>str.isspace\<close> on ASCII: tab, LF, VT, FF, CR, the separators 0x1C to 0x1F, and space.\<close>

definition isspace_c :: "char \<Rightarrow> bool" where
  "isspace_c c = ((9 \<le> (of_char c :: nat) \<and> (of_char c :: nat) \<le> 13)
                  \<or> (28 \<le> (of_char c :: nat) \<and> (of_char c :: nat) \<le> 32))"

definition lower_c :: "char \<Rightarrow> char" where
  "lower_c c = (if isupper_c c then char_of ((of_char c :: nat) + 32) else c)"

definition upper_c :: "char \<Rightarrow> char" where
  "upper_c c = (if islower_c c then char_of ((of_char c :: nat) - 32) else c)"

definition py_lower :: "string \<Rightarrow> string" where
  "py_lower s = map lower_c s"

definition py_upper :: "string \<Rightarrow> string" where
  "py_upper s = map upper_c s"

text \<open>
  \<open>str.title\<close>: a character that follows a cased character is lowercased, any other
  character is uppercased (title-cased); characters without case are kept.
\<close>

fun title_from :: "bool \<Rightarrow> string \<Rightarrow> string" where
  "title_from previous_is_cased [] = []"
| "title_from previous_is_cased (c # cs) =
     (if previous_is_cased then lower_c c else upper_c c) # title_from (iscased_c c) cs"

definition py_title :: "string \<Rightarrow> string" where
  "py_title s = title_from False s"

text \<open>\<open>s.replace(old, '')\<close> for a one-character \<open>old\<close>.\<close>

definition py_remove_char :: "char \<Rightarrow> string \<Rightarrow> string" where
  "py_remove_char old s = filter (\<lambda>c. c \<noteq> old) s"

text \<open>\<open>s.strip()\<close>: whitespace removed at both ends.\<close>

definition py_strip :: "string \<Rightarrow> string" where
  "py_strip s = rev (dropWhile isspace_c (rev (dropWhile isspace_c s)))"

text \<open>
  \<open>s.split()\<close>: the maximal runs of non-space characters. \<open>cur\<close> is the run being read,
  reversed.
\<close>

fun split_from :: "string \<Rightarrow> string \<Rightarrow> string list" where
  "split_from cur [] = (if cur = [] then [] else [rev cur])"
| "split_from cur (c # cs) =
     (if isspace_c c then (if cur = [] then split_from [] cs else rev cur # split_from [] cs)
      else split_from (c # cur) cs)"

definition py_split :: "string \<Rightarrow> string list" where
  "py_split s = split_from [] s"

text \<open>\<open>sep.join(words)\<close>.\<close>

fun py_join :: "string \<Rightarrow> string list \<Rightarrow> string" where
  "py_join sep [] = []"
| "py_join sep [w] = w"
| "py_join sep (w # v # ws) = w @ sep @ py_join sep (v # ws)"

definition startswith :: "string \<Rightarrow> string \<Rightarrow> bool" where
  "startswith s p = (take (length p) s = p)"

text \<open>\<open>needle in haystack\<close> on strings: the substring test.\<close>

fun py_in :: "string \<Rightarrow> string \<Rightarrow> bool" where
  "py_in needle [] = (needle = [])"
| "py_in needle (c # cs) = (startswith (c # cs) needle \<or> py_in needle cs)"

text \<open>
  \<open>s.split(sep)\<close> for a non-empty separator: the pieces between the occurrences of \<open>sep\<close>,
  found from left to right without overlap. \<open>cur\<close> is the piece being read, reversed.
\<close>

function split_sep_from :: "string \<Rightarrow> string \<Rightarrow> string \<Rightarrow> string list" where
  "split_sep_from sep cur [] = [rev cur]"
| "split_sep_from sep cur (c # cs) =
     (if sep \<noteq> [] \<and> startswith (c # cs) sep
      then rev cur # split_sep_from sep [] (drop (length sep) (c # cs))
      else split_sep_from sep (c # cur) cs)"
  by pat_completeness auto
termination
  by (relation "measure (\<lambda>(sep, cur, s). length s)") auto

text \<open>\<open>xs[1]\<close> on a list.\<close>

definition index1 :: "'a list \<Rightarrow> error + 'a" where
  "index1 xs = (if 2 \<le> length xs then Inr (xs ! 1) else Inl IndexError)"

section \<open>checks.py: the tag normaliser\<close>

text \<open>
  \<^verbatim>\<open>
  def tag_case(tag, uppercased, articles):
      new_words = []
      for word in tag.split():
          cleaned_word = word.replace('.', '')
          if cleaned_word.lower() in uppercased:
              new_words.append(cleaned_word.upper())
          elif cleaned_word.lower() in articles:
              new_words.append(cleaned_word.lower())
          else:
              new_words.append(cleaned_word.title())
      return ' '.join(new_words)
  \<close>
\<close>

fun tag_case_loop :: "string list \<Rightarrow> string list \<Rightarrow> string list \<Rightarrow> string list \<Rightarrow> string list" where
  "tag_case_loop uppercased articles new_words [] = new_words"
| "tag_case_loop uppercased articles new_words (word # rest) =
     (let cleaned_word = py_remove_char (CHR ''.'') word in
      if py_lower cleaned_word \<in> set uppercased
      then tag_case_loop uppercased articles (new_words @ [py_upper cleaned_word]) rest
      else if py_lower cleaned_word \<in> set articles
      then tag_case_loop uppercased articles (new_words @ [py_lower cleaned_word]) rest
      else tag_case_loop uppercased articles (new_words @ [py_title cleaned_word]) rest)"

definition tag_case :: "string \<Rightarrow> string list \<Rightarrow> string list \<Rightarrow> string" where
  "tag_case tag uppercased articles =
     py_join '' '' (tag_case_loop uppercased articles [] (py_split tag))"

text \<open>What one round of the loop appends to \<open>new_words\<close> for \<open>word\<close>.\<close>

definition cased_word :: "string list \<Rightarrow> string list \<Rightarrow> string \<Rightarrow> string" where
  "cased_word uppercased arts word =
     (let cleaned_word = py_remove_char (CHR ''.'') word
      in if py_lower cleaned_word \<in> set uppercased then py_upper cleaned_word
         else if py_lower cleaned_word \<in> set arts then py_lower cleaned_word
         else py_title cleaned_word)"

section \<open>checks.py: the remote item\<close>

text \<open>
  What the checks read of an \<open>arcgis\<close> item. \<open>shared_with_groups\<close> is the outcome of
  \<open>item.shared_with['groups']\<close>: \<open>None\<close> when the lookup raises, otherwise the groups in
  order, each \<open>Some t\<close> when its title reads as \<open>t\<close> and \<open>None\<close> when reading its title
  raises. \<open>manager_properties\<close> is the outcome of
  \<open>json.loads(str(FeatureLayerCollection.fromitem(item).manager.properties))\<close>: \<open>None\<close> when
  it raises, otherwise the dictionary read.
\<close>

record item =
  itemid :: string
  title :: string
  tags :: "string list"
  shared_with_groups :: "string option list option"
  protected :: bool
  manager_properties :: "(string \<times> pyval) list option"

section \<open>checks.py: the tag reconciler\<close>

text \<open>
  The body of the loop over the stripped tags of \<open>tags_check\<close> (lines 66 to 106): the tag
  list built so far and the next tag give the next tag list.
\<close>

definition tags_step ::
  "string \<Rightarrow> string list \<Rightarrow> string list \<Rightarrow> string list \<Rightarrow> string list \<Rightarrow> string \<Rightarrow> string list" where
  "tags_step the_title to_delete uppercased arts new_tags orig_tag =
     (let single_word_tag_in_title = (orig_tag \<in> set (py_split the_title));
          multi_word_tag_in_title = (py_in '' '' orig_tag \<and> py_in orig_tag the_title);
          lowercase_tag = py_lower orig_tag
      in if lowercase_tag = ''utah'' \<and> orig_tag \<notin> set (py_split the_title)
         then new_tags @ [''Utah'']
         else if lowercase_tag \<in> set to_delete then new_tags
         else if single_word_tag_in_title \<or> multi_word_tag_in_title then new_tags
         else (let cased_tag = tag_case orig_tag uppercased arts
               in if cased_tag \<notin> set new_tags then new_tags @ [cased_tag] else new_tags))"

text \<open>
  The \<open>try\<close> block of lines 111 to 115: titles are appended to \<open>groups\<close> until one fails
  to read. The result is the list read so far and whether an exception was caught.
\<close>

fun read_group_titles :: "string option list \<Rightarrow> string list \<Rightarrow> string list \<times> bool" where
  "read_group_titles [] groups = (groups, False)"
| "read_group_titles (None # gs) groups = (groups, True)"
| "read_group_titles (Some t # gs) groups = read_group_titles gs (groups @ [t])"

definition collect_groups :: "item \<Rightarrow> string list \<times> bool" where
  "collect_groups it =
     (case shared_with_groups it of
        None \<Rightarrow> ([], True)
      | Some gs \<Rightarrow> read_group_titles gs [])"

text \<open>The body of the loop over the group titles (lines 117 to 130).\<close>

definition category_step :: "string list \<Rightarrow> string \<Rightarrow> string list" where
  "category_step new_tags grp =
     (if py_in ''Utah SGID'' grp
      then (let category = last (split_sep_from ''Utah SGID '' [] grp);
                new_tags1 =
                  (if py_lower category \<in> set new_tags
                   then remove1 (py_lower category) new_tags @ [category]
                   else if category \<notin> set new_tags then new_tags @ [category]
                   else new_tags);
                new_tags2 = (if ''SGID'' \<notin> set new_tags1 then new_tags1 @ [''SGID''] else new_tags1)
            in if ''AGRC'' \<notin> set new_tags2 then new_tags2 @ [''AGRC''] else new_tags2)
      else new_tags)"

text \<open>
  The local variables of \<open>tags_check\<close> when it reaches line 132: the title used,
  \<open>new_tags\<close> and \<open>failed_group_items\<close>. \<open>new_title\<close> is \<open>None\<close> (the default) or a
  string.
\<close>

definition tags_check_title :: "item \<Rightarrow> string option \<Rightarrow> string" where
  "tags_check_title it new_title =
     (case new_title of
        None \<Rightarrow> title it
      | Some t \<Rightarrow> if t \<noteq> [] then t else title it)"

definition tags_check_new_tags ::
  "item \<Rightarrow> string list \<Rightarrow> string list \<Rightarrow> string list \<Rightarrow> string option \<Rightarrow> string list" where
  "tags_check_new_tags it to_delete uppercased arts new_title =
     (let the_title = tags_check_title it new_title;
          orig_tags = map py_strip (tags it);
          new_tags = foldl (tags_step the_title to_delete uppercased arts) [] orig_tags;
          groups = fst (collect_groups it)
      in foldl category_step new_tags groups)"

definition tags_check_failed_group_items :: "item \<Rightarrow> string list" where
  "tags_check_failed_group_items it =
     (let failed_group_items = []
      in if snd (collect_groups it) then failed_group_items @ [title it] else failed_group_items)"

text \<open>
  \<open>tags_check\<close> returns only \<open>tags_data\<close>; \<open>failed_group_items\<close> is a local list that
  is dropped at the return.
\<close>

definition tags_check ::
  "item \<Rightarrow> string list \<Rightarrow> string list \<Rightarrow> string list \<Rightarrow> string option \<Rightarrow> pyval" where
  "tags_check it to_delete uppercased arts new_title =
     (let new_tags = tags_check_new_tags it to_delete uppercased arts new_title
      in if sort new_tags \<noteq> sort (tags it)
         then PDict [(''fix_tags'', PStr ''Y''), (''old_tags'', PStrList (tags it)),
                     (''new_tags'', PStrList new_tags)]
         else PDict [(''fix_tags'', PStr ''N''), (''old_tags'', PStr ''''),
                     (''new_tags'', PStr '''')])"

section \<open>checks.py: the attribute checkers\<close>

text \<open>
  The metatable dictionary maps an item identifier to the pair
  \<open>[table_sgid_name, table_agol_name]\<close>.
\<close>

type_synonym metatable = "string \<rightharpoonup> string \<times> string"

definition title_check :: "item \<Rightarrow> metatable \<Rightarrow> pyval" where
  "title_check it mt =
     (let table_agol_title =
            (case mt (itemid it) of Some row \<Rightarrow> PStr (snd row) | None \<Rightarrow> PNone)
      in if truthy table_agol_title \<and> table_agol_title \<noteq> PStr (title it)
         then PDict [(''fix_title'', PStr ''Y''), (''old_title'', PStr (title it)),
                     (''new_title'', table_agol_title)]
         else PDict [(''fix_title'', PStr ''N''), (''old_title'', PStr ''''),
                     (''new_title'', PStr '''')])"

text \<open>\<open>SGID_name.split('.')[1].title()\<close>, which raises IndexError on a name without a period.\<close>

definition table_category_of :: "string \<Rightarrow> error + string" where
  "table_category_of SGID_name =
     (case index1 (split_sep_from ''.'' [] SGID_name) of
        Inl e \<Rightarrow> Inl e
      | Inr segment \<Rightarrow> Inr (py_title segment))"

definition folder_check :: "item \<Rightarrow> metatable \<Rightarrow> (string \<rightharpoonup> pyval) \<Rightarrow> error + pyval" where
  "folder_check it mt folders =
     (case folders (itemid it) of
        None \<Rightarrow> Inl KeyError
      | Some current_folder \<Rightarrow>
          (case (case mt (itemid it) of
                   Some row \<Rightarrow>
                     (case table_category_of (fst row) of
                        Inl e \<Rightarrow> Inl e
                      | Inr c \<Rightarrow> Inr (PStr c))
                 | None \<Rightarrow> Inr PNone) of
             Inl e \<Rightarrow> Inl e
           | Inr table_folder \<Rightarrow>
               Inr (if truthy table_folder \<and> table_folder \<noteq> current_folder
                    then PDict [(''fix_folder'', PStr ''Y''), (''old_folder'', current_folder),
                                (''new_folder'', table_folder)]
                    else PDict [(''fix_folder'', PStr ''N''), (''old_folder'', PStr ''''),
                                (''new_folder'', PStr '''')])))"

text \<open>
  The list comprehension in the \<open>try\<close> block of \<open>groups_check\<close>: all titles, or
  \<open>['Error']\<close> when anything raises.
\<close>

definition current_groups_of :: "item \<Rightarrow> string list" where
  "current_groups_of it =
     (case shared_with_groups it of
        None \<Rightarrow> [''Error'']
      | Some gs \<Rightarrow> if list_all (\<lambda>g. g \<noteq> None) gs then map the gs else [''Error''])"

definition cant_get_group :: string where
  "cant_get_group = ''Can'' @ [CHR 0x27] @ ''t get group''"

definition groups_check :: "item \<Rightarrow> metatable \<Rightarrow> error + pyval" where
  "groups_check it mt =
     (let current_groups = current_groups_of it
      in case (case mt (itemid it) of
                 Some row \<Rightarrow>
                   (case table_category_of (fst row) of
                      Inl e \<Rightarrow> Inl e
                    | Inr table_category \<Rightarrow> Inr (PStr (''Utah SGID '' @ table_category)))
               | None \<Rightarrow> Inr PNone) of
           Inl e \<Rightarrow> Inl e
         | Inr grp \<Rightarrow>
             Inr (if PStrList current_groups = PStr ''Error''
                  then PStrList [''N'', cant_get_group, '''']
                  else if truthy grp \<and> grp \<notin> set (map PStr current_groups)
                  then PDict [(''fix_groups'', PStr ''Y''), (''old_groups'', PStrList current_groups),
                              (''new_group'', grp)]
                  else PDict [(''fix_groups'', PStr ''N''), (''old_groups'', PStr ''''),
                              (''new_group'', PStr '''')]))"

text \<open>\<open>x in v\<close> for a string \<open>x\<close>.\<close>

fun py_contains :: "pyval \<Rightarrow> string \<Rightarrow> error + bool" where
  "py_contains (PStr s) x = Inr (py_in x s)"
| "py_contains (PStrList xs) x = Inr (x \<in> set xs)"
| "py_contains (PDict kvs) x = Inr (x \<in> set (map fst kvs))"
| "py_contains PNone x = Inl TypeError"
| "py_contains PNaN x = Inl TypeError"

text \<open>
  The downloads test shared by \<open>downloads_check\<close> and \<open>check_items\<close>:
  \<open>properties and 'Extract' not in properties['capabilities']\<close>.
\<close>

definition extract_missing :: "(string \<times> pyval) list option \<Rightarrow> error + bool" where
  "extract_missing fetched =
     (let properties = (case fetched of None \<Rightarrow> PNone | Some kvs \<Rightarrow> PDict kvs)
      in if truthy properties
         then (case map_of (the fetched) ''capabilities'' of
                 None \<Rightarrow> Inl KeyError
               | Some capabilities \<Rightarrow>
                   (case py_contains capabilities ''Extract'' of
                      Inl e \<Rightarrow> Inl e
                    | Inr found \<Rightarrow> Inr (\<not> found)))
         else Inr False)"

definition downloads_check :: "item \<Rightarrow> error + pyval" where
  "downloads_check it =
     (case extract_missing (manager_properties it) of
        Inl e \<Rightarrow> Inl e
      | Inr missing \<Rightarrow>
          Inr (if missing then PDict [(''fix_downloads'', PStr ''Y'')]
               else PDict [(''fix_downloads'', PStr ''N'')]))"

definition delete_protection_check :: "item \<Rightarrow> pyval" where
  "delete_protection_check it =
     (if \<not> protected it then PDict [(''fix_delete_protection'', PStr ''Y'')]
      else PDict [(''fix_delete_protection'', PStr ''N'')])"

text \<open>Reading a key of a returned dictionary.\<close>

definition dict_get :: "pyval \<Rightarrow> string \<Rightarrow> pyval option" where
  "dict_get d k = (case d of PDict kvs \<Rightarrow> map_of kvs k | _ \<Rightarrow> None)"

section \<open>validate.py: the validator's word lists\<close>

definition uppercased_tags :: "string list" where
  "uppercased_tags = [''2g'', ''3g'', ''4g'', ''agrc'', ''aog'', ''at&t'', ''blm'', ''brat'',
     ''caf'', ''cdl'', ''daq'', ''dfcm'', ''dfirm'', ''dwq'', ''e911'', ''ems'', ''fae'', ''fcc'',
     ''fema'', ''gcdb'', ''gis'', ''gnis'', ''hava'', ''huc'', ''lir'', ''lrs'', ''lte'', ''luca'',
     ''mrrc'', ''nca'', ''ng911'', ''nox'', ''npsbn'', ''ntia'', ''nwi'', ''plss'', ''pm10'',
     ''psap'', ''sbdc'', ''sbi'', ''sgid'', ''sitla'', ''sligp'', ''trax'', ''uca'', ''udot'',
     ''ugs'', ''uhp'', ''uic'', ''us'', ''usdw'', ''usfs'', ''usfws'', ''usps'', ''ustc'', ''ut'',
     ''uta'', ''vcp'', ''vista'', ''voc'']"

definition articles :: "string list" where
  "articles = [''a'', ''the'', ''of'', ''is'', ''in'']"

definition tags_to_delete :: "string list" where
  "tags_to_delete = [''.sd'', ''service definition'']"

section \<open>validate.py: the validator's state and report\<close>

text \<open>
  The class attributes that \<open>__init__\<close> fills: the feature service items in the order
  they were found, the folder of each item (\<open>None\<close> for the root folder), and the
  metatable dictionary.
\<close>

record validator =
  feature_service_items :: "item list"
  itemid_and_folder :: "string \<rightharpoonup> pyval"
  metatable_dict :: metatable

text \<open>
  The report is a data frame: one row per index label, in order, each row holding a cell
  for every column. A fresh frame holds NaN everywhere.
\<close>

type_synonym row = "(string \<times> pyval) list"

type_synonym report = "(string \<times> row) list"

definition columns :: "string list" where
  "columns = [''fix_title'', ''old_title'', ''new_title'',
              ''fix_groups'', ''old_groups'', ''new_group'',
              ''fix_folder'', ''old_folder'', ''new_folder'',
              ''fix_tags'', ''old_tags'', ''new_tags'',
              ''fix_downloads'',
              ''fix_delete_protection'']"

definition new_report :: "string list \<Rightarrow> report" where
  "new_report itemids = map (\<lambda>i. (i, map (\<lambda>c. (c, PNaN)) columns)) itemids"

definition set_cell :: "row \<Rightarrow> string \<times> pyval \<Rightarrow> row" where
  "set_cell r cv = map (\<lambda>(c, old). if c = fst cv then (c, snd cv) else (c, old)) r"

text \<open>\<open>report.loc[label, cols] = data\<close> for columns the frame has.\<close>

definition loc_set :: "report \<Rightarrow> string \<Rightarrow> string list \<Rightarrow> pyval list \<Rightarrow> report" where
  "loc_set rep label cols data =
     map (\<lambda>(l, r). if l = label then (l, foldl set_cell r (zip cols data)) else (l, r)) rep"

definition cell :: "report \<Rightarrow> string \<Rightarrow> string \<Rightarrow> pyval option" where
  "cell rep label col = (case map_of rep label of None \<Rightarrow> None | Some r \<Rightarrow> map_of r col)"

section \<open>validate.py: the check phase\<close>

text \<open>
  \<open>check_items\<close> calls \<open>checks.check_tags\<close> and \<open>checks.get_category_and_name\<close>. Neither
  is defined in the sources at hand, so both are parameters of the model: \<open>check_tags\<close>
  returns the tag list or raises, \<open>get_category_and_name\<close> returns the strings
  \<open>title, group, folder\<close> or raises. The blocks of the loop body follow, each giving the
  report after its \<open>report.loc\<close> assignment.
\<close>

definition title_block :: "report \<Rightarrow> item \<Rightarrow> string \<Rightarrow> report" where
  "title_block rep it ttl =
     (let title_data = (if ttl \<noteq> title it then [PStr ''Y'', PStr (title it), PStr ttl]
                        else [PStr ''N'', PStr (title it), PStr '''']);
          title_cols = [''fix_title'', ''old_title'', ''new_title'']
      in loc_set rep (itemid it) title_cols title_data)"

definition groups_block :: "report \<Rightarrow> item \<Rightarrow> string \<Rightarrow> report" where
  "groups_block rep it grp =
     (let current_groups = current_groups_of it;
          groups_data =
            (if PStrList current_groups = PStr ''Error''
             then [PStr ''N'', PStr cant_get_group, PStr '''']
             else if grp \<notin> set current_groups
             then [PStr ''Y'', PStr (py_join ''; '' current_groups), PStr grp]
             else [PStr ''N'', PStr '''', PStr '''']);
          groups_cols = [''fix_tags'', ''old_groups'', ''new_group'']
      in loc_set rep (itemid it) groups_cols groups_data)"

definition folder_block :: "report \<Rightarrow> item \<Rightarrow> (string \<rightharpoonup> pyval) \<Rightarrow> string \<Rightarrow> error + report" where
  "folder_block rep it folders folder =
     (case folders (itemid it) of
        None \<Rightarrow> Inl KeyError
      | Some current_folder \<Rightarrow>
          (let folder_data = (if PStr folder \<noteq> current_folder
                              then [PStr ''Y'', current_folder, PStr folder]
                              else [PStr ''N'', PStr '''', PStr '''']);
               folder_cols = [''fix_folder'', ''old_folder'', ''new_folder'']
           in Inr (loc_set rep (itemid it) folder_cols folder_data)))"

definition tags_block :: "report \<Rightarrow> item \<Rightarrow> string list \<Rightarrow> report" where
  "tags_block rep it new_tags =
     (let tags_data = (if sort new_tags \<noteq> sort (tags it)
                       then [PStr ''Y'', PStr (py_join ''; '' (tags it)), PStr (py_join ''; '' new_tags)]
                       else [PStr ''N'', PStr '''', PStr '''']);
          tags_cols = [''fix_tags'', ''old_tags'', ''new_tags'']
      in loc_set rep (itemid it) tags_cols tags_data)"

definition downloads_block :: "report \<Rightarrow> item \<Rightarrow> error + report" where
  "downloads_block rep it =
     (case extract_missing (manager_properties it) of
        Inl e \<Rightarrow> Inl e
      | Inr missing \<Rightarrow>
          (let protect_data = (if missing then [PStr ''Y''] else [PStr ''N'']);
               protect_cols = [''fix_downloads'']
           in Inr (loc_set rep (itemid it) protect_cols protect_data)))"

definition protection_block :: "report \<Rightarrow> item \<Rightarrow> report" where
  "protection_block rep it =
     (let protect_data = (if \<not> protected it then [PStr ''Y''] else [PStr ''N'']);
          protect_cols = [''fix_delete_protection'']
      in loc_set rep (itemid it) protect_cols protect_data)"

text \<open>
  The statement \<open>if title != 'Not SGID':\<close> of lines 137 to 168 with its three blocks.
\<close>

definition catalogued_blocks ::
  "report \<Rightarrow> item \<Rightarrow> (string \<rightharpoonup> pyval) \<Rightarrow> string \<Rightarrow> string \<Rightarrow> string \<Rightarrow> error + report" where
  "catalogued_blocks rep it folders ttl grp folder =
     (if ttl \<noteq> ''Not SGID''
      then folder_block (groups_block (title_block rep it ttl) it grp) it folders folder
      else Inr rep)"

text \<open>
  The body of the loop of \<open>check_items\<close> (lines 116 to 197) for one item; the word
  lists are the class attributes.
\<close>

definition check_item ::
  "validator \<Rightarrow> (item \<Rightarrow> string list \<Rightarrow> string list \<Rightarrow> string list \<Rightarrow> error + string list)
     \<Rightarrow> (item \<Rightarrow> metatable \<Rightarrow> error + string \<times> string \<times> string)
     \<Rightarrow> report \<Rightarrow> item \<Rightarrow> error + report" where
  "check_item self check_tags get_category_and_name rep it =
     (case check_tags it tags_to_delete uppercased_tags articles of
        Inl e \<Rightarrow> Inl e
      | Inr new_tags \<Rightarrow>
          (case get_category_and_name it (metatable_dict self) of
             Inl e \<Rightarrow> Inl e
           | Inr (ttl, grp, folder) \<Rightarrow>
               (case catalogued_blocks rep it (itemid_and_folder self) ttl grp folder of
                  Inl e \<Rightarrow> Inl e
                | Inr rep1 \<Rightarrow>
                    (case downloads_block (tags_block rep1 it new_tags) it of
                       Inl e \<Rightarrow> Inl e
                     | Inr rep2 \<Rightarrow> Inr (protection_block rep2 it)))))"

fun check_items_loop ::
  "validator \<Rightarrow> (item \<Rightarrow> string list \<Rightarrow> string list \<Rightarrow> string list \<Rightarrow> error + string list)
     \<Rightarrow> (item \<Rightarrow> metatable \<Rightarrow> error + string \<times> string \<times> string)
     \<Rightarrow> report \<Rightarrow> item list \<Rightarrow> error + report" where
  "check_items_loop self check_tags get_category_and_name rep [] = Inr rep"
| "check_items_loop self check_tags get_category_and_name rep (it # rest) =
     (case check_item self check_tags get_category_and_name rep it of
        Inl e \<Rightarrow> Inl e
      | Inr rep1 \<Rightarrow> check_items_loop self check_tags get_category_and_name rep1 rest)"

text \<open>
  \<open>check_items\<close>: a fresh frame indexed by the item identifiers, then the loop; the result
  is the report returned (writing it to the CSV file is not modelled).
\<close>

definition check_items ::
  "validator \<Rightarrow> (item \<Rightarrow> string list \<Rightarrow> string list \<Rightarrow> string list \<Rightarrow> error + string list)
     \<Rightarrow> (item \<Rightarrow> metatable \<Rightarrow> error + string \<times> string \<times> string)
     \<Rightarrow> error + report" where
  "check_items self check_tags get_category_and_name =
     (let itemids = map itemid (feature_service_items self)
      in check_items_loop self check_tags get_category_and_name (new_report itemids)
           (feature_service_items self))"

section \<open>validate.py: the fix phase\<close>

datatype pykey = KInt int | KStr string

text \<open>
  \<open>xs[k]\<close> on a Python list: an integer counts positions (from the end when negative), and
  any other key raises TypeError.
\<close>

definition list_getitem :: "'a list \<Rightarrow> pykey \<Rightarrow> error + 'a" where
  "list_getitem xs k =
     (case k of
        KStr s \<Rightarrow> Inl TypeError
      | KInt i \<Rightarrow>
          (if 0 \<le> i \<and> i < int (length xs) then Inr (xs ! nat i)
           else if i < 0 \<and> - int (length xs) \<le> i then Inr (xs ! nat (int (length xs) + i))
           else Inl IndexError))"

text \<open>The remote calls and attribute writes that \<open>fix_items\<close> issues on an item.\<close>

datatype action =
    Update item "(string \<times> pyval) list"
  | Share item "string list \<times> pyval list"
  | Move item pyval
  | SetProtect item
  | UpdateDefinition item "(string \<times> pyval) list"

definition bind_err :: "error + 'a \<Rightarrow> ('a \<Rightarrow> error + 'b) \<Rightarrow> error + 'b" where
  "bind_err m f = (case m of Inl e \<Rightarrow> Inl e | Inr x \<Rightarrow> f x)"

definition get_cell :: "row \<Rightarrow> string \<Rightarrow> error + pyval" where
  "get_cell r col = (case map_of r col of None \<Rightarrow> Inl KeyError | Some v \<Rightarrow> Inr v)"

text \<open>\<open>v.split('; ')\<close>: defined on strings only.\<close>

definition split_semicolon :: "pyval \<Rightarrow> error + pyval" where
  "split_semicolon v =
     (case v of
        PStr s \<Rightarrow> Inr (PStrList (split_sep_from ''; '' [] s))
      | _ \<Rightarrow> Inl AttributeError)"

text \<open>
  The five steps of the loop body of \<open>fix_items\<close> after the item lookup. Each issues at
  most one action, as its last effect.
\<close>

definition fix_update :: "item \<Rightarrow> row \<Rightarrow> error + action list" where
  "fix_update it r =
     bind_err (get_cell r ''fix_title'') (\<lambda>fix_title.
     bind_err (if fix_title = PStr ''Y''
               then bind_err (get_cell r ''new_title'') (\<lambda>new_title. Inr [(''title'', new_title)])
               else Inr []) (\<lambda>update_dict.
     bind_err (get_cell r ''fix_tags'') (\<lambda>fix_tags.
     bind_err (if fix_tags = PStr ''Y''
               then bind_err (get_cell r ''new_tags'') (\<lambda>new_tags.
                    bind_err (split_semicolon new_tags) (\<lambda>pieces.
                    Inr (update_dict @ [(''tags'', pieces)])))
               else Inr update_dict) (\<lambda>update_dict.
     Inr (if update_dict \<noteq> [] then [Update it update_dict] else [])))))"

definition fix_group :: "item \<Rightarrow> row \<Rightarrow> error + action list" where
  "fix_group it r =
     bind_err (get_cell r ''fix_groups'') (\<lambda>fix_groups.
     if fix_groups = PStr ''Y''
     then bind_err (get_cell r ''new_group'') (\<lambda>new_group. Inr [Share it ([''everyone''], [new_group])])
     else Inr [])"

definition fix_folder :: "item \<Rightarrow> row \<Rightarrow> error + action list" where
  "fix_folder it r =
     bind_err (get_cell r ''fix_folder'') (\<lambda>fix_folder'.
     if fix_folder' = PStr ''Y''
     then bind_err (get_cell r ''new_folder'') (\<lambda>new_folder. Inr [Move it new_folder])
     else Inr [])"

definition fix_delete_protection :: "item \<Rightarrow> row \<Rightarrow> error + action list" where
  "fix_delete_protection it r =
     bind_err (get_cell r ''fix_delete_protection'') (\<lambda>flag.
     Inr (if flag = PStr ''Y'' then [SetProtect it] else []))"

definition fix_downloads :: "item \<Rightarrow> row \<Rightarrow> error + action list" where
  "fix_downloads it r =
     bind_err (get_cell r ''fix_downloads'') (\<lambda>flag.
     Inr (if flag = PStr ''Y''
          then [UpdateDefinition it [(''capabilities'', PStr ''Query,Extract'')]]
          else []))"

text \<open>Steps run in order; the first exception ends the run and keeps the actions issued.\<close>

fun run_steps :: "(error + action list) list \<Rightarrow> action list \<Rightarrow> action list \<times> error option" where
  "run_steps [] issued = (issued, None)"
| "run_steps (Inl e # steps) issued = (issued, Some e)"
| "run_steps (Inr acts # steps) issued = run_steps steps (issued @ acts)"

fun fix_items_loop :: "item list \<Rightarrow> report \<Rightarrow> action list \<Rightarrow> action list \<times> error option" where
  "fix_items_loop items [] issued = (issued, None)"
| "fix_items_loop items ((label, r) # rest) issued =
     (case list_getitem items (KStr label) of
        Inl e \<Rightarrow> (issued, Some e)
      | Inr it \<Rightarrow>
          (case run_steps [fix_update it r, fix_group it r, fix_folder it r,
                           fix_delete_protection it r, fix_downloads it r] issued of
             (issued1, Some e) \<Rightarrow> (issued1, Some e)
           | (issued1, None) \<Rightarrow> fix_items_loop items rest issued1))"

text \<open>
  \<open>fix_items\<close>: \<open>report.to_dict('index')\<close> raises ValueError on a repeated index label; the
  loop then runs over the labels in order. The result is the actions issued and the
  exception that ended the run, if any.
\<close>

definition fix_items :: "validator \<Rightarrow> report \<Rightarrow> action list \<times> error option" where
  "fix_items self rep =
     (if \<not> distinct (map fst rep) then ([], Some ValueError)
      else fix_items_loop (feature_service_items self) rep [])"

section \<open>The normaliser as the specification words it\<close>









section \<open>Reading a checker's result\<close>

text \<open>
  A checker's dictionary holds a flag under its \<open>fix_...\<close> key. \<open>needs_fix\<close> and \<open>no_fix\<close>
  read the flag; \<open>old_new_empty\<close> says that the old and the new value are both the empty
  string.
\<close>

definition needs_fix :: "pyval \<Rightarrow> string \<Rightarrow> bool" where
  "needs_fix d fix_key = (dict_get d fix_key = Some (PStr ''Y''))"

definition no_fix :: "pyval \<Rightarrow> string \<Rightarrow> bool" where
  "no_fix d fix_key = (dict_get d fix_key = Some (PStr ''N''))"

definition old_new_empty :: "pyval \<Rightarrow> string \<Rightarrow> string \<Rightarrow> bool" where
  "old_new_empty d old_key new_key =
     (dict_get d old_key = Some (PStr '''') \<and> dict_get d new_key = Some (PStr ''''))"

text \<open>
  The two calls with \<open>checks.py\<close> as it is: the module defines no \<open>check_tags\<close> and no
  \<open>get_category_and_name\<close>, so looking either name up in the module raises
  \<open>AttributeError\<close> before the arguments are used.
\<close>

definition checks_check_tags ::
  "item \<Rightarrow> string list \<Rightarrow> string list \<Rightarrow> string list \<Rightarrow> error + string list" where
  "checks_check_tags it to_delete uppercased arts = Inl AttributeError"

definition checks_get_category_and_name ::
  "item \<Rightarrow> metatable \<Rightarrow> error + string \<times> string \<times> string" where
  "checks_get_category_and_name it mt = Inl AttributeError"

section \<open>Words\<close>

text \<open>A word as \<open>split()\<close> returns them: not empty and free of whitespace.\<close>

definition word_ok :: "string \<Rightarrow> bool" where
  "word_ok w = (w \<noteq> [] \<and> list_all (\<lambda>c. \<not> isspace_c c) w)"

section \<open>Running the tag reconciler on its own output\<close>

text \<open>
  The tags after the first loop of \<open>tags_check\<close>, and the categories that the second loop
  reads from the group titles that hold \<open>Utah SGID\<close>.
\<close>

definition loop_tags ::
  "item \<Rightarrow> string list \<Rightarrow> string list \<Rightarrow> string list \<Rightarrow> string option \<Rightarrow> string list" where
  "loop_tags it to_delete uppercased arts new_title =
     foldl (tags_step (tags_check_title it new_title) to_delete uppercased arts) []
       (map py_strip (tags it))"

definition category_of :: "string \<Rightarrow> string" where
  "category_of grp = last (split_sep_from ''Utah SGID '' [] grp)"

definition sgid_categories :: "string list \<Rightarrow> string list" where
  "sgid_categories groups = map category_of (filter (py_in ''Utah SGID'') groups)"

text \<open>
  The tests of the first loop on a stripped tag: the first branch keeps a tag that is
  \<open>utah\<close> in some casing and not a word of the title, as the literal \<open>Utah\<close>; the second
  and third branch drop a tag that is on the delete list, a word of the title or a
  multi-word substring of the title. The tags that reach the last branch are normalised
  with \<open>tag_case\<close>.
\<close>

definition utah_kept :: "string \<Rightarrow> string \<Rightarrow> bool" where
  "utah_kept the_title orig_tag =
     (py_lower orig_tag = ''utah'' \<and> orig_tag \<notin> set (py_split the_title))"

definition dropped :: "string \<Rightarrow> string list \<Rightarrow> string \<Rightarrow> bool" where
  "dropped the_title to_delete orig_tag =
     (py_lower orig_tag \<in> set to_delete \<or> orig_tag \<in> set (py_split the_title)
      \<or> (py_in '' '' orig_tag \<and> py_in orig_tag the_title))"

definition normalised_tags :: "item \<Rightarrow> string list \<Rightarrow> string option \<Rightarrow> string list" where
  "normalised_tags it to_delete new_title =
     filter (\<lambda>orig_tag. \<not> utah_kept (tags_check_title it new_title) orig_tag
                       \<and> \<not> dropped (tags_check_title it new_title) to_delete orig_tag)
       (map py_strip (tags it))"

text \<open>The tags that the second loop makes sure of: the categories, then \<open>SGID\<close> and \<open>AGRC\<close>.\<close>

definition required_tags :: "string list \<Rightarrow> string list" where
  "required_tags groups =
     (if sgid_categories groups = [] then [] else sgid_categories groups @ [''SGID'', ''AGRC''])"

text \<open>
  What a tag of the item must be like for the second run to agree with the first. A tag
  kept as \<open>Utah\<close> needs a title without the word \<open>Utah\<close>. A tag that is normalised has no
  word made of periods only, and its normalised form is treated by the tests in one of
  three ways: kept as \<open>Utah\<close>, being \<open>Utah\<close>; dropped, being a tag other than \<open>Utah\<close> that the
  second loop adds again; or normalised once more.
\<close>

definition input_tag_ok ::
  "string \<Rightarrow> string list \<Rightarrow> string list \<Rightarrow> string list \<Rightarrow> string list \<Rightarrow> string \<Rightarrow> bool" where
  "input_tag_ok the_title to_delete uppercased arts required t =
     (let orig_tag = py_strip t
      in if utah_kept the_title orig_tag then ''Utah'' \<notin> set (py_split the_title)
         else if dropped the_title to_delete orig_tag then True
         else list_all (\<lambda>w. py_remove_char (CHR ''.'') w \<noteq> []) (py_split orig_tag)
              \<and> (let cased_tag = tag_case orig_tag uppercased arts
                  in if utah_kept the_title cased_tag then cased_tag = ''Utah''
                     else if dropped the_title to_delete cased_tag
                     then cased_tag \<in> set required \<and> cased_tag \<noteq> ''Utah''
                     else True))"

text \<open>
  What a tag \<open>x\<close> that the second loop adds must be like: the first loop keeps it as
  \<open>Utah\<close>, and it is \<open>Utah\<close>; or drops it, and it is not \<open>Utah\<close>; or normalises it to
  itself.
\<close>

definition required_tag_ok ::
  "string \<Rightarrow> string list \<Rightarrow> string list \<Rightarrow> string list \<Rightarrow> string \<Rightarrow> bool" where
  "required_tag_ok the_title to_delete uppercased arts x =
     (let orig_tag = py_strip x
      in if utah_kept the_title orig_tag then x = ''Utah''
         else if dropped the_title to_delete orig_tag then x \<noteq> ''Utah''
         else tag_case orig_tag uppercased arts = x)"

text \<open>
  A category that is not in lowercase has its lowercase form neither among the normalised
  tags nor among the categories, so that the second loop replaces no tag.
\<close>

definition categories_ok ::
  "item \<Rightarrow> string list \<Rightarrow> string list \<Rightarrow> string list \<Rightarrow> string option \<Rightarrow> bool" where
  "categories_ok it to_delete uppercased arts new_title =
     list_all (\<lambda>category. py_lower category \<noteq> category \<longrightarrow>
                 py_lower category
                   \<notin> set (map (\<lambda>orig_tag. tag_case orig_tag uppercased arts)
                             (normalised_tags it to_delete new_title))
                 \<and> py_lower category \<notin> set (sgid_categories (fst (collect_groups it))))
       (sgid_categories (fst (collect_groups it)))"

text \<open>All strings that \<open>tags_check\<close> reads are ASCII.\<close>

definition ascii_input ::
  "item \<Rightarrow> string list \<Rightarrow> string list \<Rightarrow> string list \<Rightarrow> string option \<Rightarrow> bool" where
  "ascii_input it to_delete uppercased arts new_title =
     (ascii_str (tags_check_title it new_title) \<and> list_all ascii_str (tags it)
      \<and> list_all ascii_str (fst (collect_groups it)) \<and> list_all ascii_str to_delete
      \<and> list_all ascii_str uppercased \<and> list_all ascii_str arts)"

section \<open>The tag normaliser follows its specification\<close>

lemma tag_case_loop_map:
  "tag_case_loop U A new_words ws = new_words @ map (cased_word U A) ws"
  by (induction ws arbitrary: new_words) (simp_all add: cased_word_def Let_def)

lemma split_dash:
  "split_sep_from ''-'' cur (c # cs) =
     (if c = CHR ''-'' then rev cur # split_sep_from ''-'' [] cs
      else split_sep_from ''-'' (c # cur) cs)"
  by (simp add: startswith_def)















section \<open>The group checker when the membership fetch fails\<close>

text \<open>
  Claim C1 asks for a non-fixable sentinel when the group-membership fetch fails. The
  \<open>except\<close> branch binds the list \<open>['Error']\<close> and the test compares it with the string
  \<open>'Error'\<close>, so the sentinel branch is never taken: for a catalogued item whose fetch
  fails, \<open>groups_check\<close> reports a fix from \<open>['Error']\<close> to the catalogue's group.
\<close>

theorem groups_check_fetch_failure_reports_fix:
  "groups_check
     \<lparr>itemid = ''abc'', title = ''Utah Counties'', tags = [],
      shared_with_groups = None, protected = True, manager_properties = None\<rparr>
     [''abc'' \<mapsto> (''SGID.BOUNDARIES.Counties'', ''Utah Counties'')]
   = Inr (PDict [(''fix_groups'', PStr ''Y''), (''old_groups'', PStrList [''Error'']),
                 (''new_group'', PStr ''Utah SGID Boundaries'')])"
  by code_simp

section \<open>The item lookup of the fix phase\<close>

lemma fix_items_loop_first_row:
  "fix_items_loop items ((label, r) # rest) issued = (issued, Some TypeError)"
  by (simp add: list_getitem_def)

text \<open>
  Claim C10. \<open>fix_items\<close> indexes the item list with the row's label, an item identifier.
  The list is indexed by position: an integer within range returns the item at that
  position, and a string key returns no item at all but raises TypeError, whatever the
  identifiers of the items are. So the first row of any report ends the fix phase with an
  exception before any mutation is issued.
\<close>

theorem fix_items_lookup_by_itemid_fails:
  "list_getitem (feature_service_items self) (KStr label) = Inl TypeError
   \<and> (n < length (feature_service_items self)
        \<longrightarrow> list_getitem (feature_service_items self) (KInt (int n))
              = Inr (feature_service_items self ! n))
   \<and> fix_items self ((label, r) # rest)
       = ([], Some (if distinct (map fst ((label, r) # rest)) then TypeError else ValueError))"
  by (simp add: list_getitem_def fix_items_def del: distinct.simps)

theorem fix_items_lookup_by_itemid_fails_witness:
  "list_getitem
     [\<lparr>itemid = ''abc'', title = ''Roads'', tags = [], shared_with_groups = Some [],
       protected = False, manager_properties = None\<rparr>] (KStr ''abc'') = Inl TypeError
   \<and> list_getitem
       [\<lparr>itemid = ''abc'', title = ''Roads'', tags = [], shared_with_groups = Some [],
         protected = False, manager_properties = None\<rparr>] (KInt 0)
      = Inr \<lparr>itemid = ''abc'', title = ''Roads'', tags = [], shared_with_groups = Some [],
             protected = False, manager_properties = None\<rparr>
   \<and> fix_items
       \<lparr>feature_service_items =
          [\<lparr>itemid = ''abc'', title = ''Roads'', tags = [], shared_with_groups = Some [],
            protected = False, manager_properties = None\<rparr>],
        itemid_and_folder = [''abc'' \<mapsto> PNone], metatable_dict = Map.empty\<rparr>
       [(''abc'', [(''fix_delete_protection'', PStr ''Y'')])]
      = ([], Some TypeError)"
  using fix_items_lookup_by_itemid_fails
    [of "\<lparr>feature_service_items =
          [\<lparr>itemid = ''abc'', title = ''Roads'', tags = [], shared_with_groups = Some [],
            protected = False, manager_properties = None\<rparr>],
        itemid_and_folder = [''abc'' \<mapsto> PNone], metatable_dict = Map.empty\<rparr>"
        "''abc''" 0 "[(''fix_delete_protection'', PStr ''Y'')]" "[]"]
  by simp

section \<open>The end-to-end scenario of the tag reconciler\<close>

lemma lower_c_not_upper: "\<not> isupper_c (lower_c c)"
  by (simp add: lower_c_def isupper_c_def)

lemma py_lower_no_upper: "c \<in> set (py_lower s) \<Longrightarrow> \<not> isupper_c c"
  by (auto simp: py_lower_def lower_c_not_upper)

lemma py_lower_neq_upper_word:
  assumes "\<exists>c\<in>set t. isupper_c c"
  shows "py_lower s \<noteq> t"
  using assms py_lower_no_upper by blast

text \<open>
  Tags that hold an uppercase letter are never the lowercase form of a category, so the
  group loop only ever appends behind them.
\<close>

lemma category_step_keeps_prefix:
  assumes "\<forall>t\<in>set pre. \<exists>c\<in>set t. isupper_c c"
  shows "\<exists>cats'. category_step (pre @ cats) g = pre @ cats'"
proof -
  have notin: "py_lower x \<notin> set pre" for x
    using assms py_lower_neq_upper_word by blast
  show ?thesis
    by (simp add: category_step_def Let_def remove1_append notin)
qed

lemma foldl_category_step_keeps_prefix:
  assumes "\<forall>t\<in>set pre. \<exists>c\<in>set t. isupper_c c"
  shows "\<exists>cats'. foldl category_step (pre @ cats) gs = pre @ cats'"
proof (induction gs arbitrary: cats)
  case Nil
  show ?case by simp
next
  case (Cons g gs)
  obtain c1 where "category_step (pre @ cats) g = pre @ c1"
    using category_step_keeps_prefix [OF assms] by blast
  with Cons.IH [of c1] show ?case by simp
qed

lemma foldl_category_step_no_sgid:
  assumes "\<forall>g\<in>set gs. \<not> py_in ''Utah SGID'' g"
  shows "foldl category_step acc gs = acc"
  using assms by (induction gs arbitrary: acc) (simp_all add: category_step_def)

lemma bicycle_loop:
  "foldl (tags_step ''Bicycle Network'' tags_to_delete uppercased_tags articles) []
     (map py_strip [''Cycle Net'', ''.SD'', ''utah'', ''water-related''])
   = [''Cycle Net'', ''Utah'', ''Water-Related'']"
  by code_simp

lemma bicycle_tags_have_upper:
  "\<forall>t\<in>set [''Cycle Net'', ''Utah'', ''Water-Related'']. \<exists>c\<in>set t. isupper_c c"
  by (simp add: isupper_c_def)

lemma sort_eq_set: "sort xs = sort ys \<Longrightarrow> set xs = set ys"
  by (metis set_sort)

text \<open>
  Claim C4 says that the tag \<open>Cycle Net\<close> is dropped as a substring of the title
  \<open>Bicycle Network\<close>. The substring test of line 82 is case-sensitive and the title holds
  \<open>cycle Net\<close> with a small c, so the tag is kept: with no group, the reconciled list is
  \<open>Cycle Net\<close>, \<open>Utah\<close>, \<open>Water-Related\<close>.
\<close>

theorem bicycle_network_cycle_net_kept:
  "tags_check
     \<lparr>itemid = ''abc'', title = ''Bicycle Network'',
      tags = [''Cycle Net'', ''.SD'', ''utah'', ''water-related''],
      shared_with_groups = Some [], protected = True, manager_properties = None\<rparr>
     tags_to_delete uppercased_tags articles None
   = PDict [(''fix_tags'', PStr ''Y''),
            (''old_tags'', PStrList [''Cycle Net'', ''.SD'', ''utah'', ''water-related'']),
            (''new_tags'', PStrList [''Cycle Net'', ''Utah'', ''Water-Related''])]
   \<and> \<not> py_in ''Cycle Net'' ''Bicycle Network''
   \<and> py_in ''cycle Net'' ''Bicycle Network''"
  by code_simp

text \<open>
  Claim C4, amended. For every item titled \<open>Bicycle Network\<close> with the tags \<open>Cycle Net\<close>,
  \<open>.SD\<close>, \<open>utah\<close>, \<open>water-related\<close>, whatever its groups and whether or not reading them
  fails, the reconciler drops \<open>.SD\<close>, keeps \<open>Cycle Net\<close>, keeps the literal \<open>Utah\<close> and
  produces \<open>Water-Related\<close>: it reports a fix whose new tag list is \<open>Cycle Net\<close>, \<open>Utah\<close>,
  \<open>Water-Related\<close> followed by the tags added for the groups, and by nothing when no group
  title holds \<open>Utah SGID\<close>.
\<close>

theorem bicycle_network_tags:
  assumes "title it = ''Bicycle Network''"
    and "tags it = [''Cycle Net'', ''.SD'', ''utah'', ''water-related'']"
  shows "\<exists>category_tags.
           tags_check it tags_to_delete uppercased_tags articles None
             = PDict [(''fix_tags'', PStr ''Y''), (''old_tags'', PStrList (tags it)),
                      (''new_tags'',
                       PStrList ([''Cycle Net'', ''Utah'', ''Water-Related''] @ category_tags))]
           \<and> ((\<forall>g\<in>set (fst (collect_groups it)). \<not> py_in ''Utah SGID'' g)
                \<longrightarrow> category_tags = [])"
proof -
  let ?three = "[''Cycle Net'', ''Utah'', ''Water-Related'']"
  let ?gs = "fst (collect_groups it)"
  have new: "tags_check_new_tags it tags_to_delete uppercased_tags articles None
             = foldl category_step ?three ?gs"
    using bicycle_loop by (simp add: tags_check_new_tags_def tags_check_title_def assms Let_def)
  obtain cats where cats: "foldl category_step (?three @ []) ?gs = ?three @ cats"
    using foldl_category_step_keeps_prefix [OF bicycle_tags_have_upper] by blast
  have differ: "sort (?three @ cats) \<noteq> sort (tags it)"
  proof
    assume "sort (?three @ cats) = sort (tags it)"
    then have "set (?three @ cats) = set (tags it)" by (rule sort_eq_set)
    then have "''Utah'' \<in> set (tags it)" by auto
    then show False by (simp add: assms)
  qed
  have none: "(\<forall>g\<in>set ?gs. \<not> py_in ''Utah SGID'' g) \<longrightarrow> cats = []"
    using cats foldl_category_step_no_sgid [of ?gs ?three] by auto
  have "tags_check it tags_to_delete uppercased_tags articles None
        = PDict [(''fix_tags'', PStr ''Y''), (''old_tags'', PStrList (tags it)),
                 (''new_tags'', PStrList (?three @ cats))]"
    using differ cats new by (simp add: tags_check_def Let_def)
  with none show ?thesis by blast
qed

theorem bicycle_network_tags_witness:
  "tags_check
     \<lparr>itemid = ''abc'', title = ''Bicycle Network'',
      tags = [''Cycle Net'', ''.SD'', ''utah'', ''water-related''],
      shared_with_groups = Some [Some ''Utah SGID Transportation''], protected = True,
      manager_properties = None\<rparr>
     tags_to_delete uppercased_tags articles None
   = PDict [(''fix_tags'', PStr ''Y''),
            (''old_tags'', PStrList [''Cycle Net'', ''.SD'', ''utah'', ''water-related'']),
            (''new_tags'', PStrList [''Cycle Net'', ''Utah'', ''Water-Related'',
                                     ''Transportation'', ''SGID'', ''AGRC''])]"
proof -
  let ?it = "\<lparr>itemid = ''abc'', title = ''Bicycle Network'',
      tags = [''Cycle Net'', ''.SD'', ''utah'', ''water-related''],
      shared_with_groups = Some [Some ''Utah SGID Transportation''], protected = True,
      manager_properties = None\<rparr>"
  have h1: "title ?it = ''Bicycle Network''" by simp
  have h2: "tags ?it = [''Cycle Net'', ''.SD'', ''utah'', ''water-related'']" by simp
  from bicycle_network_tags [OF h1 h2] obtain cats where
    c: "tags_check ?it tags_to_delete uppercased_tags articles None
        = PDict [(''fix_tags'', PStr ''Y''), (''old_tags'', PStrList (tags ?it)),
                 (''new_tags'', PStrList ([''Cycle Net'', ''Utah'', ''Water-Related''] @ cats))]"
    by blast
  have e: "tags_check_new_tags ?it tags_to_delete uppercased_tags articles None
           = [''Cycle Net'', ''Utah'', ''Water-Related'', ''Transportation'', ''SGID'', ''AGRC'']"
    by code_simp
  have "tags_check ?it tags_to_delete uppercased_tags articles None
        = PDict [(''fix_tags'', PStr ''Y''), (''old_tags'', PStrList (tags ?it)),
                 (''new_tags'', PStrList (tags_check_new_tags ?it tags_to_delete uppercased_tags
                                            articles None))]"
    using c by (simp add: tags_check_def Let_def split: if_splits)
  with e show ?thesis by simp
qed

section \<open>Items that are not in the catalogue\<close>







section \<open>The flag and the old and new values of a checker's result\<close>

lemma title_check_fields:
  "(no_fix (title_check it mt) ''fix_title''
      \<longleftrightarrow> old_new_empty (title_check it mt) ''old_title'' ''new_title'')
   \<and> (needs_fix (title_check it mt) ''fix_title'' \<longleftrightarrow> \<not> no_fix (title_check it mt) ''fix_title'')
   \<and> (needs_fix (title_check it mt) ''fix_title'' \<longrightarrow>
        dict_get (title_check it mt) ''old_title'' = Some (PStr (title it))
        \<and> (\<exists>row. mt (itemid it) = Some row \<and> snd row \<noteq> title it
              \<and> dict_get (title_check it mt) ''new_title'' = Some (PStr (snd row))))"
  by (auto simp: title_check_def no_fix_def needs_fix_def old_new_empty_def dict_get_def Let_def
           split: option.splits)

lemma tags_check_fields:
  "(no_fix (tags_check it D U A nt) ''fix_tags''
      \<longleftrightarrow> old_new_empty (tags_check it D U A nt) ''old_tags'' ''new_tags'')
   \<and> (needs_fix (tags_check it D U A nt) ''fix_tags''
      \<longleftrightarrow> \<not> no_fix (tags_check it D U A nt) ''fix_tags'')
   \<and> (needs_fix (tags_check it D U A nt) ''fix_tags'' \<longrightarrow>
        dict_get (tags_check it D U A nt) ''old_tags'' = Some (PStrList (tags it))
        \<and> dict_get (tags_check it D U A nt) ''new_tags''
            = Some (PStrList (tags_check_new_tags it D U A nt)))"
  by (auto simp: tags_check_def no_fix_def needs_fix_def old_new_empty_def dict_get_def Let_def)

lemma py_title_Nil_iff: "py_title s = [] \<longleftrightarrow> s = []"
  by (cases s) (simp_all add: py_title_def)

lemma folder_check_fields:
  "folder_check it mt folders = Inr d \<Longrightarrow>
   (no_fix d ''fix_folder'' \<longleftrightarrow> old_new_empty d ''old_folder'' ''new_folder'')
   \<and> (needs_fix d ''fix_folder'' \<longleftrightarrow> \<not> no_fix d ''fix_folder'')
   \<and> (needs_fix d ''fix_folder'' \<longrightarrow>
        dict_get d ''old_folder'' = folders (itemid it)
        \<and> (\<exists>row c. mt (itemid it) = Some row \<and> table_category_of (fst row) = Inr c
              \<and> dict_get d ''new_folder'' = Some (PStr c)))"
  by (auto simp: folder_check_def no_fix_def needs_fix_def old_new_empty_def dict_get_def Let_def
           split: option.splits sum.splits if_splits)

lemma current_groups_of_fetched:
  "shared_with_groups it = Some (map Some gs) \<Longrightarrow> current_groups_of it = gs"
  by (simp add: current_groups_of_def list_all_iff comp_def)

lemma groups_check_fields:
  "shared_with_groups it = Some (map Some gs) \<Longrightarrow> groups_check it mt = Inr d \<Longrightarrow>
   (no_fix d ''fix_groups'' \<longleftrightarrow> old_new_empty d ''old_groups'' ''new_group'')
   \<and> (needs_fix d ''fix_groups'' \<longleftrightarrow> \<not> no_fix d ''fix_groups'')
   \<and> (needs_fix d ''fix_groups'' \<longrightarrow>
        dict_get d ''old_groups'' = Some (PStrList gs)
        \<and> (\<exists>row c. mt (itemid it) = Some row \<and> table_category_of (fst row) = Inr c
              \<and> dict_get d ''new_group'' = Some (PStr (''Utah SGID '' @ c))
              \<and> ''Utah SGID '' @ c \<notin> set gs))"
  by (auto simp: groups_check_def current_groups_of_fetched no_fix_def needs_fix_def
                 old_new_empty_def dict_get_def Let_def
           split: option.splits sum.splits if_splits)

lemma downloads_check_fields:
  "downloads_check it = Inr d \<Longrightarrow>
   d = PDict [(''fix_downloads'', PStr ''Y'')] \<or> d = PDict [(''fix_downloads'', PStr ''N'')]"
  by (auto simp: downloads_check_def split: sum.splits if_splits)

lemma delete_protection_check_fields:
  "delete_protection_check it
     = PDict [(''fix_delete_protection'', PStr (if protected it then ''N'' else ''Y''))]"
  by (simp add: delete_protection_check_def)

text \<open>
  Claim C5 says that every checker's result has the flag set exactly when both the old and
  the new value are populated. A fix can carry an empty value: an item whose only tag is on
  the delete list gets a fix to the empty tag list. The delete-protection result of an
  unprotected item is a fix with no old or new value at all. And the title block of
  \<open>check_items\<close> keeps the old title in a row that needs no fix.
\<close>

theorem fix_with_empty_new_value:
  "needs_fix
     (tags_check
        \<lparr>itemid = ''abc'', title = ''Roads'', tags = [''.sd''], shared_with_groups = Some [],
         protected = False, manager_properties = None\<rparr>
        tags_to_delete uppercased_tags articles None) ''fix_tags''
   \<and> dict_get
       (tags_check
          \<lparr>itemid = ''abc'', title = ''Roads'', tags = [''.sd''], shared_with_groups = Some [],
           protected = False, manager_properties = None\<rparr>
          tags_to_delete uppercased_tags articles None) ''new_tags'' = Some (PStrList [])
   \<and> delete_protection_check
       \<lparr>itemid = ''abc'', title = ''Roads'', tags = [''.sd''], shared_with_groups = Some [],
        protected = False, manager_properties = None\<rparr>
      = PDict [(''fix_delete_protection'', PStr ''Y'')]
   \<and> cell (title_block (new_report [''abc''])
              \<lparr>itemid = ''abc'', title = ''Roads'', tags = [''.sd''],
               shared_with_groups = Some [], protected = False, manager_properties = None\<rparr>
              ''Roads'') ''abc'' ''fix_title'' = Some (PStr ''N'')
   \<and> cell (title_block (new_report [''abc''])
              \<lparr>itemid = ''abc'', title = ''Roads'', tags = [''.sd''],
               shared_with_groups = Some [], protected = False, manager_properties = None\<rparr>
              ''Roads'') ''abc'' ''old_title'' = Some (PStr ''Roads'')"
  by code_simp

text \<open>
  Claim C5, amended. For the title, group, folder and tag checkers of \<open>checks.py\<close>, the
  group checker being read on items whose group titles were fetched, a result has the flag
  \<open>N\<close> exactly when its old and its new value are both the empty string, and the flag
  \<open>Y\<close> exactly when it is not \<open>N\<close>; with the flag \<open>Y\<close> the old value is the item's
  current value (its title, the list of its group titles, its folder, its tag list, any of
  which may be empty) and the new value is the desired one (the catalogue's title, the
  catalogue's group, which is not among the item's groups, the catalogue's folder, the
  reconciled tag list). The downloads and delete-protection results hold the flag only.
\<close>

theorem checker_flag_and_values:
  "((no_fix (title_check it mt) ''fix_title''
       \<longleftrightarrow> old_new_empty (title_check it mt) ''old_title'' ''new_title'')
    \<and> (needs_fix (title_check it mt) ''fix_title'' \<longleftrightarrow> \<not> no_fix (title_check it mt) ''fix_title'')
    \<and> (needs_fix (title_check it mt) ''fix_title'' \<longrightarrow>
         dict_get (title_check it mt) ''old_title'' = Some (PStr (title it))
         \<and> (\<exists>row. mt (itemid it) = Some row \<and> snd row \<noteq> title it
               \<and> dict_get (title_check it mt) ''new_title'' = Some (PStr (snd row)))))
   \<and> (\<forall>gs d. shared_with_groups it = Some (map Some gs) \<and> groups_check it mt = Inr d \<longrightarrow>
        (no_fix d ''fix_groups'' \<longleftrightarrow> old_new_empty d ''old_groups'' ''new_group'')
        \<and> (needs_fix d ''fix_groups'' \<longleftrightarrow> \<not> no_fix d ''fix_groups'')
        \<and> (needs_fix d ''fix_groups'' \<longrightarrow>
             dict_get d ''old_groups'' = Some (PStrList gs)
             \<and> (\<exists>row c. mt (itemid it) = Some row \<and> table_category_of (fst row) = Inr c
                   \<and> dict_get d ''new_group'' = Some (PStr (''Utah SGID '' @ c))
                   \<and> ''Utah SGID '' @ c \<notin> set gs)))
   \<and> (\<forall>d. folder_check it mt folders = Inr d \<longrightarrow>
        (no_fix d ''fix_folder'' \<longleftrightarrow> old_new_empty d ''old_folder'' ''new_folder'')
        \<and> (needs_fix d ''fix_folder'' \<longleftrightarrow> \<not> no_fix d ''fix_folder'')
        \<and> (needs_fix d ''fix_folder'' \<longrightarrow>
             dict_get d ''old_folder'' = folders (itemid it)
             \<and> (\<exists>row c. mt (itemid it) = Some row \<and> table_category_of (fst row) = Inr c
                   \<and> dict_get d ''new_folder'' = Some (PStr c))))
   \<and> ((no_fix (tags_check it D U A nt) ''fix_tags''
         \<longleftrightarrow> old_new_empty (tags_check it D U A nt) ''old_tags'' ''new_tags'')
       \<and> (needs_fix (tags_check it D U A nt) ''fix_tags''
         \<longleftrightarrow> \<not> no_fix (tags_check it D U A nt) ''fix_tags'')
       \<and> (needs_fix (tags_check it D U A nt) ''fix_tags'' \<longrightarrow>
            dict_get (tags_check it D U A nt) ''old_tags'' = Some (PStrList (tags it))
            \<and> dict_get (tags_check it D U A nt) ''new_tags''
                = Some (PStrList (tags_check_new_tags it D U A nt))))
   \<and> (\<forall>d. downloads_check it = Inr d \<longrightarrow>
        d = PDict [(''fix_downloads'', PStr ''Y'')] \<or> d = PDict [(''fix_downloads'', PStr ''N'')])
   \<and> delete_protection_check it
       = PDict [(''fix_delete_protection'', PStr (if protected it then ''N'' else ''Y''))]"
proof -
  have groups: "\<forall>gs d. shared_with_groups it = Some (map Some gs) \<and> groups_check it mt = Inr d \<longrightarrow>
        (no_fix d ''fix_groups'' \<longleftrightarrow> old_new_empty d ''old_groups'' ''new_group'')
        \<and> (needs_fix d ''fix_groups'' \<longleftrightarrow> \<not> no_fix d ''fix_groups'')
        \<and> (needs_fix d ''fix_groups'' \<longrightarrow>
             dict_get d ''old_groups'' = Some (PStrList gs)
             \<and> (\<exists>row c. mt (itemid it) = Some row \<and> table_category_of (fst row) = Inr c
                   \<and> dict_get d ''new_group'' = Some (PStr (''Utah SGID '' @ c))
                   \<and> ''Utah SGID '' @ c \<notin> set gs))"
    using groups_check_fields [of it _ mt] by blast
  have folder: "\<forall>d. folder_check it mt folders = Inr d \<longrightarrow>
        (no_fix d ''fix_folder'' \<longleftrightarrow> old_new_empty d ''old_folder'' ''new_folder'')
        \<and> (needs_fix d ''fix_folder'' \<longleftrightarrow> \<not> no_fix d ''fix_folder'')
        \<and> (needs_fix d ''fix_folder'' \<longrightarrow>
             dict_get d ''old_folder'' = folders (itemid it)
             \<and> (\<exists>row c. mt (itemid it) = Some row \<and> table_category_of (fst row) = Inr c
                   \<and> dict_get d ''new_folder'' = Some (PStr c)))"
    using folder_check_fields [of it mt folders] by blast
  have downloads: "\<forall>d. downloads_check it = Inr d \<longrightarrow>
        d = PDict [(''fix_downloads'', PStr ''Y'')] \<or> d = PDict [(''fix_downloads'', PStr ''N'')]"
    using downloads_check_fields [of it] by blast
  from title_check_fields [of it mt] groups folder tags_check_fields [of it D U A nt]
    downloads delete_protection_check_fields [of it]
  show ?thesis by (intro conjI) blast+
qed

theorem checker_flag_and_values_witness:
  "needs_fix
     (title_check
        \<lparr>itemid = ''abc'', title = ''Roads'', tags = [''Boundaries'', ''SGID'', ''AGRC''],
         shared_with_groups = Some [Some ''Utah SGID Boundaries''], protected = False,
         manager_properties = Some [(''capabilities'', PStr ''Query'')]\<rparr>
        [''abc'' \<mapsto> (''SGID.TRANSPORTATION.Roads'', ''Utah Roads'')]) ''fix_title''
   \<and> dict_get
       (title_check
          \<lparr>itemid = ''abc'', title = ''Roads'', tags = [''Boundaries'', ''SGID'', ''AGRC''],
           shared_with_groups = Some [Some ''Utah SGID Boundaries''], protected = False,
           manager_properties = Some [(''capabilities'', PStr ''Query'')]\<rparr>
          [''abc'' \<mapsto> (''SGID.TRANSPORTATION.Roads'', ''Utah Roads'')]) ''old_title''
      = Some (PStr ''Roads'')
   \<and> shared_with_groups
       \<lparr>itemid = ''abc'', title = ''Roads'', tags = [''Boundaries'', ''SGID'', ''AGRC''],
        shared_with_groups = Some [Some ''Utah SGID Boundaries''], protected = False,
        manager_properties = Some [(''capabilities'', PStr ''Query'')]\<rparr>
      = Some (map Some [''Utah SGID Boundaries''])
   \<and> groups_check
       \<lparr>itemid = ''abc'', title = ''Roads'', tags = [''Boundaries'', ''SGID'', ''AGRC''],
        shared_with_groups = Some [Some ''Utah SGID Boundaries''], protected = False,
        manager_properties = Some [(''capabilities'', PStr ''Query'')]\<rparr>
       [''abc'' \<mapsto> (''SGID.TRANSPORTATION.Roads'', ''Utah Roads'')]
      = Inr (PDict [(''fix_groups'', PStr ''Y''),
                    (''old_groups'', PStrList [''Utah SGID Boundaries'']),
                    (''new_group'', PStr ''Utah SGID Transportation'')])
   \<and> \<not> no_fix (PDict [(''fix_groups'', PStr ''Y''),
                       (''old_groups'', PStrList [''Utah SGID Boundaries'']),
                       (''new_group'', PStr ''Utah SGID Transportation'')]) ''fix_groups''
   \<and> folder_check
       \<lparr>itemid = ''abc'', title = ''Roads'', tags = [''Boundaries'', ''SGID'', ''AGRC''],
        shared_with_groups = Some [Some ''Utah SGID Boundaries''], protected = False,
        manager_properties = Some [(''capabilities'', PStr ''Query'')]\<rparr>
       [''abc'' \<mapsto> (''SGID.TRANSPORTATION.Roads'', ''Utah Roads'')] [''abc'' \<mapsto> PNone]
      = Inr (PDict [(''fix_folder'', PStr ''Y''), (''old_folder'', PNone),
                    (''new_folder'', PStr ''Transportation'')])
   \<and> old_new_empty
       (tags_check
          \<lparr>itemid = ''abc'', title = ''Roads'', tags = [''Boundaries'', ''SGID'', ''AGRC''],
           shared_with_groups = Some [Some ''Utah SGID Boundaries''], protected = False,
           manager_properties = Some [(''capabilities'', PStr ''Query'')]\<rparr>
          tags_to_delete uppercased_tags articles None) ''old_tags'' ''new_tags''
   \<and> downloads_check
       \<lparr>itemid = ''abc'', title = ''Roads'', tags = [''Boundaries'', ''SGID'', ''AGRC''],
        shared_with_groups = Some [Some ''Utah SGID Boundaries''], protected = False,
        manager_properties = Some [(''capabilities'', PStr ''Query'')]\<rparr>
      = Inr (PDict [(''fix_downloads'', PStr ''Y'')])"
proof -
  let ?it = "\<lparr>itemid = ''abc'', title = ''Roads'', tags = [''Boundaries'', ''SGID'', ''AGRC''],
      shared_with_groups = Some [Some ''Utah SGID Boundaries''], protected = False,
      manager_properties = Some [(''capabilities'', PStr ''Query'')]\<rparr>"
  let ?mt = "[''abc'' \<mapsto> (''SGID.TRANSPORTATION.Roads'', ''Utah Roads'')]"
  let ?d = "PDict [(''fix_groups'', PStr ''Y''),
                   (''old_groups'', PStrList [''Utah SGID Boundaries'']),
                   (''new_group'', PStr ''Utah SGID Transportation'')]"
  note facts = checker_flag_and_values
    [where it = ?it and mt = ?mt and folders = "[''abc'' \<mapsto> PNone]" and D = tags_to_delete
       and U = uppercased_tags and A = articles and nt = None]
  have t: "needs_fix (title_check ?it ?mt) ''fix_title''"
    by code_simp
  have sw: "shared_with_groups ?it = Some (map Some [''Utah SGID Boundaries''])"
    by simp
  have g: "groups_check ?it ?mt = Inr ?d"
    by code_simp
  have gy: "needs_fix ?d ''fix_groups''"
    by code_simp
  have f: "folder_check ?it ?mt [''abc'' \<mapsto> PNone]
      = Inr (PDict [(''fix_folder'', PStr ''Y''), (''old_folder'', PNone),
                    (''new_folder'', PStr ''Transportation'')])"
    by code_simp
  have n: "no_fix (tags_check ?it tags_to_delete uppercased_tags articles None) ''fix_tags''"
    by code_simp
  have d: "downloads_check ?it = Inr (PDict [(''fix_downloads'', PStr ''Y'')])"
    by code_simp
  from facts t have old: "dict_get (title_check ?it ?mt) ''old_title'' = Some (PStr (title ?it))"
    by blast
  from facts sw g gy have ng: "\<not> no_fix ?d ''fix_groups''"
    by blast
  from facts n have e: "old_new_empty (tags_check ?it tags_to_delete uppercased_tags articles None)
      ''old_tags'' ''new_tags''"
    by blast
  from t old sw g ng f e d show ?thesis by simp
qed

section \<open>The tag reconciler when the groups cannot be read\<close>

lemma read_group_titles_fst:
  "fst (read_group_titles gs groups) = groups @ map the (takeWhile (\<lambda>g. g \<noteq> None) gs)"
  by (induction gs groups rule: read_group_titles.induct) simp_all

lemma read_group_titles_snd:
  "snd (read_group_titles gs groups) \<longleftrightarrow> None \<in> set gs"
  by (induction gs groups rule: read_group_titles.induct) auto

text \<open>
  Claim C9 says that the item's identifier is recorded and that the group list is treated
  as empty. Line 115 appends the item's title, not its \<open>itemid\<close>; and when the failure
  comes while the titles are read, the titles read before it stay in \<open>groups\<close> and give
  category tags.
\<close>

theorem failed_group_items_holds_title:
  "tags_check_failed_group_items
     \<lparr>itemid = ''abc'', title = ''Roads'', tags = [], shared_with_groups = None,
      protected = True, manager_properties = None\<rparr> = [''Roads'']
   \<and> ''abc'' \<notin> set (tags_check_failed_group_items
        \<lparr>itemid = ''abc'', title = ''Roads'', tags = [], shared_with_groups = None,
         protected = True, manager_properties = None\<rparr>)
   \<and> snd (collect_groups
        \<lparr>itemid = ''abc'', title = ''Roads'', tags = [],
         shared_with_groups = Some [Some ''Utah SGID Boundaries'', None],
         protected = True, manager_properties = None\<rparr>)
   \<and> tags_check_new_tags
        \<lparr>itemid = ''abc'', title = ''Roads'', tags = [],
         shared_with_groups = Some [Some ''Utah SGID Boundaries'', None],
         protected = True, manager_properties = None\<rparr>
        tags_to_delete uppercased_tags articles None
      = [''Boundaries'', ''SGID'', ''AGRC'']"
  by code_simp

text \<open>
  Claim C9, amended. Whenever an exception is caught while the groups are read,
  \<open>tags_check\<close> appends the item's title to its local list \<open>failed_group_items\<close> (which it
  does not return); it derives category tags from the group titles read before the failure
  only, so from none when the lookup itself fails; and it returns its dictionary of
  \<open>fix_tags\<close>, \<open>old_tags\<close> and \<open>new_tags\<close> as in every other case, without raising.
\<close>

theorem tags_check_group_failure:
  assumes "snd (collect_groups it)"
  shows "tags_check_failed_group_items it = [title it]
     \<and> (shared_with_groups it = None \<longrightarrow>
          tags_check_new_tags it D U A nt
            = foldl (tags_step (tags_check_title it nt) D U A) [] (map py_strip (tags it)))
     \<and> (\<forall>gs. shared_with_groups it = Some gs \<longrightarrow>
          None \<in> set gs
          \<and> tags_check_new_tags it D U A nt
              = foldl category_step
                  (foldl (tags_step (tags_check_title it nt) D U A) [] (map py_strip (tags it)))
                  (map the (takeWhile (\<lambda>g. g \<noteq> None) gs)))
     \<and> (\<exists>flag old new.
          tags_check it D U A nt
            = PDict [(''fix_tags'', PStr flag), (''old_tags'', old), (''new_tags'', new)])"
proof -
  have failed: "tags_check_failed_group_items it = [title it]"
    using assms by (simp add: tags_check_failed_group_items_def)
  have lookup: "shared_with_groups it = None \<longrightarrow>
      tags_check_new_tags it D U A nt
        = foldl (tags_step (tags_check_title it nt) D U A) [] (map py_strip (tags it))"
    by (simp add: tags_check_new_tags_def collect_groups_def Let_def)
  have partial: "\<forall>gs. shared_with_groups it = Some gs \<longrightarrow>
      None \<in> set gs
      \<and> tags_check_new_tags it D U A nt
          = foldl category_step
              (foldl (tags_step (tags_check_title it nt) D U A) [] (map py_strip (tags it)))
              (map the (takeWhile (\<lambda>g. g \<noteq> None) gs))"
    using assms
    by (auto simp: tags_check_new_tags_def collect_groups_def Let_def read_group_titles_fst
                   read_group_titles_snd)
  have returns: "\<exists>flag old new.
      tags_check it D U A nt
        = PDict [(''fix_tags'', PStr flag), (''old_tags'', old), (''new_tags'', new)]"
    by (simp add: tags_check_def Let_def)
  from failed lookup partial returns show ?thesis by blast
qed

theorem tags_check_group_failure_witness:
  "snd (collect_groups
     \<lparr>itemid = ''abc'', title = ''Roads'', tags = [''plss  fabric'', ''.SD''],
      shared_with_groups = None, protected = True, manager_properties = None\<rparr>)
   \<and> tags_check_failed_group_items
       \<lparr>itemid = ''abc'', title = ''Roads'', tags = [''plss  fabric'', ''.SD''],
        shared_with_groups = None, protected = True, manager_properties = None\<rparr> = [''Roads'']
   \<and> tags_check_new_tags
       \<lparr>itemid = ''abc'', title = ''Roads'', tags = [''plss  fabric'', ''.SD''],
        shared_with_groups = None, protected = True, manager_properties = None\<rparr>
       tags_to_delete uppercased_tags articles None = [''PLSS Fabric'']"
proof -
  let ?it = "\<lparr>itemid = ''abc'', title = ''Roads'', tags = [''plss  fabric'', ''.SD''],
      shared_with_groups = None, protected = True, manager_properties = None\<rparr>"
  have h: "snd (collect_groups ?it)" by code_simp
  have loop: "foldl (tags_step (tags_check_title ?it None) tags_to_delete uppercased_tags articles)
      [] (map py_strip (tags ?it)) = [''PLSS Fabric'']"
    by code_simp
  from tags_check_group_failure [OF h, where D = tags_to_delete and U = uppercased_tags
      and A = articles and nt = None] loop h
  show ?thesis by simp
qed

section \<open>Case conversion of characters and strings\<close>

lemma char_eqI: "(of_char a :: nat) = of_char b \<Longrightarrow> a = b"
  by simp

lemma of_char_lower_c:
  "(of_char (lower_c c) :: nat) = (if isupper_c c then of_char c + 32 else of_char c)"
  by (simp add: lower_c_def isupper_c_def)

lemma of_char_upper_c:
  "(of_char (upper_c c) :: nat) = (if islower_c c then of_char c - 32 else of_char c)"
proof (cases "islower_c c")
  case True
  then have "(of_char c :: nat) - 32 < 256" unfolding islower_c_def by arith
  with True show ?thesis by (simp add: upper_c_def)
next
  case False
  then show ?thesis by (simp add: upper_c_def)
qed

lemma lower_c_idem: "lower_c (lower_c c) = lower_c c"
  by (rule char_eqI) (simp add: of_char_lower_c isupper_c_def)

lemma upper_c_idem: "upper_c (upper_c c) = upper_c c"
  by (rule char_eqI) (simp add: of_char_upper_c islower_c_def; arith)

lemma lower_upper_c: "lower_c (upper_c c) = lower_c c"
  by (rule char_eqI) (auto simp: of_char_lower_c of_char_upper_c isupper_c_def islower_c_def)

lemma iscased_lower_c: "iscased_c (lower_c c) = iscased_c c"
  by (auto simp: iscased_c_def of_char_lower_c isupper_c_def islower_c_def)

lemma iscased_upper_c: "iscased_c (upper_c c) = iscased_c c"
  by (auto simp: iscased_c_def of_char_upper_c isupper_c_def islower_c_def)

lemma isspace_lower_c: "isspace_c (lower_c c) = isspace_c c"
  by (auto simp: isspace_c_def of_char_lower_c isupper_c_def)

lemma isspace_upper_c: "isspace_c (upper_c c) = isspace_c c"
  by (auto simp: isspace_c_def of_char_upper_c islower_c_def)

lemma of_char_dot: "c = CHR ''.'' \<longleftrightarrow> (of_char c :: nat) = 46"
proof -
  have "(of_char (CHR ''.'') :: nat) = 46" by simp
  then show ?thesis by (metis of_char_eq_iff)
qed

lemma dot_lower_c: "CHR ''.'' = lower_c c \<longleftrightarrow> CHR ''.'' = c"
proof -
  have "(of_char (lower_c c) :: nat) = 46 \<longleftrightarrow> (of_char c :: nat) = 46"
    by (auto simp: of_char_lower_c isupper_c_def split: if_splits)
  then show ?thesis
    using of_char_dot [of "lower_c c"] of_char_dot [of c] by metis
qed

lemma dot_upper_c: "CHR ''.'' = upper_c c \<longleftrightarrow> CHR ''.'' = c"
proof -
  have "(of_char (upper_c c) :: nat) = 46 \<longleftrightarrow> (of_char c :: nat) = 46"
    by (auto simp: of_char_upper_c islower_c_def split: if_splits)
  then show ?thesis
    using of_char_dot [of "upper_c c"] of_char_dot [of c] by metis
qed

lemma py_lower_idem: "py_lower (py_lower s) = py_lower s"
  by (simp add: py_lower_def lower_c_idem)

lemma py_upper_idem: "py_upper (py_upper s) = py_upper s"
  by (simp add: py_upper_def upper_c_idem)

lemma py_lower_upper: "py_lower (py_upper s) = py_lower s"
  by (simp add: py_lower_def py_upper_def lower_upper_c)

lemma lower_title_from: "py_lower (title_from b s) = py_lower s"
  by (induction s arbitrary: b) (simp_all add: py_lower_def lower_c_idem lower_upper_c)

lemma title_from_idem: "title_from b (title_from b s) = title_from b s"
  by (induction s arbitrary: b)
     (simp_all add: lower_c_idem upper_c_idem iscased_lower_c iscased_upper_c)

lemma no_dot_lower: "CHR ''.'' \<notin> set s \<Longrightarrow> CHR ''.'' \<notin> set (py_lower s)"
  by (induction s) (simp_all add: py_lower_def dot_lower_c)

lemma no_dot_upper: "CHR ''.'' \<notin> set s \<Longrightarrow> CHR ''.'' \<notin> set (py_upper s)"
  by (induction s) (simp_all add: py_upper_def dot_upper_c)

lemma no_dot_title: "CHR ''.'' \<notin> set s \<Longrightarrow> CHR ''.'' \<notin> set (title_from b s)"
  by (induction s arbitrary: b) (simp_all add: dot_lower_c dot_upper_c)

lemma remove_char_absent: "c \<notin> set s \<Longrightarrow> py_remove_char c s = s"
  by (induction s) (auto simp: py_remove_char_def)

lemma remove_char_gone: "c \<notin> set (py_remove_char c s)"
  by (simp add: py_remove_char_def)

lemma no_dot_cased_word: "CHR ''.'' \<notin> set (cased_word U A w)"
  by (simp add: cased_word_def Let_def py_title_def no_dot_lower no_dot_upper no_dot_title
                remove_char_gone)

lemma cased_word_idem: "cased_word U A (cased_word U A w) = cased_word U A w"
proof -
  let ?c = "py_remove_char (CHR ''.'') w"
  have clean: "py_remove_char (CHR ''.'') (cased_word U A w) = cased_word U A w"
    by (rule remove_char_absent) (rule no_dot_cased_word)
  have low: "py_lower (cased_word U A w) = py_lower ?c"
    by (simp add: cased_word_def Let_def py_lower_idem py_lower_upper py_title_def
                  lower_title_from)
  show ?thesis
    unfolding cased_word_def [of U A "cased_word U A w"] Let_def clean low
    by (simp add: cased_word_def Let_def py_upper_idem py_lower_idem py_title_def
                  title_from_idem)
qed

section \<open>Splitting and joining words\<close>

lemma split_from_word:
  "list_all (\<lambda>c. \<not> isspace_c c) w \<Longrightarrow> split_from cur (w @ rest) = split_from (rev w @ cur) rest"
  by (induction w arbitrary: cur) simp_all

lemma isspace_space: "isspace_c (CHR '' '')"
  by (simp add: isspace_c_def)

lemma py_join_Cons: "py_join sep (v # vs) = (if vs = [] then v else v @ sep @ py_join sep vs)"
  by (cases vs) simp_all

lemma py_split_join:
  "list_all word_ok vs \<Longrightarrow> py_split (py_join '' '' vs) = vs"
proof (induction vs)
  case Nil
  show ?case by (simp add: py_split_def)
next
  case (Cons v vs)
  then have v: "list_all (\<lambda>c. \<not> isspace_c c) v" "v \<noteq> []" by (simp_all add: word_ok_def)
  from Cons have IH: "py_split (py_join '' '' vs) = vs" by simp
  show ?case
  proof (cases "vs = []")
    case True
    then show ?thesis
      using split_from_word [OF v(1), of "[]" "[]"] v(2) by (simp add: py_split_def)
  next
    case False
    then show ?thesis
      using split_from_word [OF v(1), of "[]" "CHR '' '' # py_join '' '' vs"] v(2) IH
      by (simp add: py_split_def isspace_space py_join_Cons)
  qed
qed

lemma split_from_words_ok:
  "list_all (\<lambda>c. \<not> isspace_c c) cur \<Longrightarrow> list_all word_ok (split_from cur s)"
  by (induction s arbitrary: cur) (simp_all add: word_ok_def)

lemma py_split_words_ok: "list_all word_ok (py_split s)"
  by (simp add: py_split_def split_from_words_ok)

lemma no_space_lower: "list_all (\<lambda>c. \<not> isspace_c c) s \<Longrightarrow> list_all (\<lambda>c. \<not> isspace_c c) (py_lower s)"
  by (induction s) (simp_all add: py_lower_def isspace_lower_c)

lemma no_space_upper: "list_all (\<lambda>c. \<not> isspace_c c) s \<Longrightarrow> list_all (\<lambda>c. \<not> isspace_c c) (py_upper s)"
  by (induction s) (simp_all add: py_upper_def isspace_upper_c)

lemma no_space_title: "list_all (\<lambda>c. \<not> isspace_c c) s \<Longrightarrow> list_all (\<lambda>c. \<not> isspace_c c) (title_from b s)"
  by (induction s arbitrary: b) (simp_all add: isspace_lower_c isspace_upper_c)

lemma no_space_remove: "list_all (\<lambda>c. \<not> isspace_c c) s \<Longrightarrow> list_all (\<lambda>c. \<not> isspace_c c) (py_remove_char d s)"
  by (induction s) (simp_all add: py_remove_char_def)

lemma py_lower_Nil_iff: "py_lower s = [] \<longleftrightarrow> s = []"
  by (simp add: py_lower_def)

lemma py_upper_Nil_iff: "py_upper s = [] \<longleftrightarrow> s = []"
  by (simp add: py_upper_def)

lemma title_from_Nil_iff: "title_from b s = [] \<longleftrightarrow> s = []"
  by (cases s) simp_all

lemma cased_word_ok:
  assumes "word_ok w" and "py_remove_char (CHR ''.'') w \<noteq> []"
  shows "word_ok (cased_word U A w)"
  using assms
  by (simp add: word_ok_def cased_word_def Let_def py_title_def no_space_lower no_space_upper
                no_space_title no_space_remove title_from_Nil_iff py_lower_Nil_iff py_upper_Nil_iff)

section \<open>Idempotence of the tag normaliser\<close>

text \<open>
  Claim C7 says that \<open>tag_case\<close> is idempotent on every tag. A word made of periods only is
  cleaned to the empty string, which \<open>join\<close> surrounds with two spaces; the second pass
  splits on them and returns a single space.
\<close>

theorem tag_case_period_word_not_idempotent:
  "tag_case ''x . y'' uppercased_tags articles = ''X  Y''
   \<and> tag_case (tag_case ''x . y'' uppercased_tags articles) uppercased_tags articles = ''X Y''
   \<and> tag_case (tag_case ''x . y'' uppercased_tags articles) uppercased_tags articles
       \<noteq> tag_case ''x . y'' uppercased_tags articles"
  by code_simp

text \<open>
  Claim C7, amended. On every ASCII tag none of whose words consists of periods only,
  \<open>tag_case\<close> is idempotent, for the validator's word lists and for any others.
\<close>

theorem tag_case_idempotent:
  assumes "ascii_str tag"
    and "\<forall>w\<in>set (py_split tag). py_remove_char (CHR ''.'') w \<noteq> []"
  shows "tag_case (tag_case tag U A) U A = tag_case tag U A"
proof -
  let ?ws = "py_split tag"
  let ?vs = "map (cased_word U A) ?ws"
  have "list_all word_ok ?vs"
    using py_split_words_ok [of tag] assms(2)
    by (simp add: list_all_iff cased_word_ok)
  then have split: "py_split (py_join '' '' ?vs) = ?vs" by (rule py_split_join)
  have first: "tag_case tag U A = py_join '' '' ?vs"
    by (simp add: tag_case_def tag_case_loop_map)
  have second: "tag_case (py_join '' '' ?vs) U A = py_join '' '' (map (cased_word U A) ?vs)"
    by (simp add: tag_case_def tag_case_loop_map split)
  have idem: "map (cased_word U A) ?vs = ?vs"
    by (simp add: cased_word_idem comp_def)
  have "tag_case (tag_case tag U A) U A = tag_case (py_join '' '' ?vs) U A"
    by (simp only: first)
  also have "\<dots> = py_join '' '' (map (cased_word U A) ?vs)"
    by (rule second)
  also have "\<dots> = py_join '' '' ?vs"
    by (simp only: idem)
  also have "\<dots> = tag_case tag U A"
    by (simp only: first)
  finally show ?thesis .
qed

theorem tag_case_idempotent_witness:
  "ascii_str ''U.S. bureau  Of at&t-coverage''
   \<and> list_all (\<lambda>w. py_remove_char (CHR ''.'') w \<noteq> []) (py_split ''U.S. bureau  Of at&t-coverage'')
   \<and> tag_case ''U.S. bureau  Of at&t-coverage'' uppercased_tags articles
       = ''US Bureau of At&T-Coverage''
   \<and> tag_case ''US Bureau of At&T-Coverage'' uppercased_tags articles
       = ''US Bureau of At&T-Coverage''"
proof -
  let ?t = "''U.S. bureau  Of at&t-coverage''"
  have h1: "ascii_str ?t" by code_simp
  have h2': "list_all (\<lambda>w. py_remove_char (CHR ''.'') w \<noteq> []) (py_split ?t)" by code_simp
  then have h2: "\<forall>w\<in>set (py_split ?t). py_remove_char (CHR ''.'') w \<noteq> []"
    by (simp add: list_all_iff)
  have e: "tag_case ?t uppercased_tags articles = ''US Bureau of At&T-Coverage''" by code_simp
  from tag_case_idempotent [OF h1 h2, of uppercased_tags articles] e h1 h2'
  show ?thesis by simp
qed

section \<open>The check phase on the sources as they are\<close>

lemma check_items_first_item_raises:
  "check_items (self\<lparr>feature_service_items := it # rest\<rparr>)
     checks_check_tags checks_get_category_and_name = Inl AttributeError"
  by (simp add: check_items_def check_item_def checks_check_tags_def Let_def)

text \<open>
  Claim C2 says that the check phase completes with one row for every item and maps a
  failed group or capability lookup to a non-fixable sentinel. With \<open>checks.py\<close> as it is,
  the first statement of the loop body looks up \<open>checks.check_tags\<close>, which the module does
  not define: \<open>check_items\<close> raises \<open>AttributeError\<close> at the first item and no report is
  returned. Were the two helpers to return, the row of an item whose group lookup failed
  would not hold the sentinel either: the \<open>except\<close> branch binds the list \<open>['Error']\<close>, the
  test compares it with the string \<open>'Error'\<close>, and the comparison branch writes \<open>Error\<close>
  and the catalogue's group as old and new value, its flag going to the \<open>fix_tags\<close> column
  that the tags block overwrites, so that \<open>fix_groups\<close> stays NaN. And the read of
  \<open>properties['capabilities']\<close> is outside the \<open>try\<close>: properties without that key raise
  \<open>KeyError\<close>.
\<close>

theorem check_items_raises_on_first_item:
  "check_items
     \<lparr>feature_service_items =
        [\<lparr>itemid = ''abc'', title = ''Utah Counties'', tags = [''Counties''],
          shared_with_groups = None, protected = True, manager_properties = None\<rparr>],
      itemid_and_folder = [''abc'' \<mapsto> PStr ''Boundaries''],
      metatable_dict = [''abc'' \<mapsto> (''SGID.BOUNDARIES.Counties'', ''Utah Counties'')]\<rparr>
     checks_check_tags checks_get_category_and_name
   = Inl AttributeError
   \<and> check_items
       \<lparr>feature_service_items =
          [\<lparr>itemid = ''abc'', title = ''Utah Counties'', tags = [''Counties''],
            shared_with_groups = None, protected = True, manager_properties = None\<rparr>],
        itemid_and_folder = [''abc'' \<mapsto> PStr ''Boundaries''],
        metatable_dict = [''abc'' \<mapsto> (''SGID.BOUNDARIES.Counties'', ''Utah Counties'')]\<rparr>
       (\<lambda>it to_delete uppercased arts. Inr [''Counties''])
       (\<lambda>it mt. Inr (''Utah Counties'', ''Utah SGID Boundaries'', ''Boundaries''))
     = Inr [(''abc'',
             [(''fix_title'', PStr ''N''), (''old_title'', PStr ''Utah Counties''),
              (''new_title'', PStr ''''),
              (''fix_groups'', PNaN), (''old_groups'', PStr ''Error''),
              (''new_group'', PStr ''Utah SGID Boundaries''),
              (''fix_folder'', PStr ''N''), (''old_folder'', PStr ''''),
              (''new_folder'', PStr ''''),
              (''fix_tags'', PStr ''N''), (''old_tags'', PStr ''''), (''new_tags'', PStr ''''),
              (''fix_downloads'', PStr ''N''),
              (''fix_delete_protection'', PStr ''N'')])]
   \<and> cell (groups_block (new_report [''abc''])
              \<lparr>itemid = ''abc'', title = ''Utah Counties'', tags = [''Counties''],
               shared_with_groups = None, protected = True, manager_properties = None\<rparr>
              ''Utah SGID Boundaries'') ''abc'' ''fix_tags'' = Some (PStr ''Y'')
   \<and> downloads_block (new_report [''abc''])
       \<lparr>itemid = ''abc'', title = ''Utah Counties'', tags = [''Counties''],
        shared_with_groups = None, protected = True,
        manager_properties = Some [(''currentVersion'', PStr ''10.7'')]\<rparr>
     = Inl KeyError"
  by code_simp

section \<open>The second run of the tag reconciler\<close>

lemma new_tags_eq:
  "tags_check_new_tags it D U A nt = foldl category_step (loop_tags it D U A nt) (fst (collect_groups it))"
  by (simp add: tags_check_new_tags_def loop_tags_def Let_def)

lemma lower_Utah: "py_lower ''Utah'' = ''utah''"
  by code_simp

lemma tags_step_distinct:
  "distinct (filter (\<lambda>t. t \<noteq> ''Utah'') acc) \<Longrightarrow>
   distinct (filter (\<lambda>t. t \<noteq> ''Utah'') (tags_step ttl D U A acc x))"
  by (simp add: tags_step_def Let_def)

lemma foldl_tags_step_distinct:
  "distinct (filter (\<lambda>t. t \<noteq> ''Utah'') acc) \<Longrightarrow>
   distinct (filter (\<lambda>t. t \<noteq> ''Utah'') (foldl (tags_step ttl D U A) acc xs))"
  by (induction xs arbitrary: acc) (simp_all add: tags_step_distinct)


lemma lower_neq_SGID: "py_lower x \<noteq> ''SGID''"
  by (rule py_lower_neq_upper_word) (simp add: isupper_c_def)

lemma lower_neq_AGRC: "py_lower x \<noteq> ''AGRC''"
  by (rule py_lower_neq_upper_word) (simp add: isupper_c_def)

lemma lower_neq_Utah: "py_lower x \<noteq> ''Utah''"
  by (rule py_lower_neq_upper_word) (simp add: isupper_c_def)

lemma category_step_not_sgid: "\<not> py_in ''Utah SGID'' g \<Longrightarrow> category_step acc g = acc"
  by (simp add: category_step_def)

lemma category_step_sgid:
  "py_in ''Utah SGID'' g \<Longrightarrow>
   category_step acc g =
     (let c = category_of g;
          n1 = (if py_lower c \<in> set acc then remove1 (py_lower c) acc @ [c]
                else if c \<notin> set acc then acc @ [c] else acc);
          n2 = (if ''SGID'' \<notin> set n1 then n1 @ [''SGID''] else n1)
      in if ''AGRC'' \<notin> set n2 then n2 @ [''AGRC''] else n2)"
  by (simp add: category_step_def category_of_def Let_def)

lemma replace_or_add:
  fixes c :: string
  assumes ok: "py_lower c = c \<or> py_lower c \<notin> set acc"
    and d: "distinct (filter (\<lambda>t. t \<noteq> ''Utah'') acc)"
  defines "n1 \<equiv> (if py_lower c \<in> set acc then remove1 (py_lower c) acc @ [c]
                  else if c \<notin> set acc then acc @ [c] else acc)"
  shows "set n1 = set acc \<union> {c}" and "distinct (filter (\<lambda>t. t \<noteq> ''Utah'') n1)"
proof -
  show "set n1 = set acc \<union> {c}"
  proof (cases "py_lower c \<in> set acc")
    case True
    with ok have eq: "py_lower c = c" by blast
    with True have mem: "c \<in> set acc" by simp
    have "set (remove1 c acc) \<union> {c} = set acc"
      using mem by (induction acc) auto
    with True eq mem show ?thesis by (auto simp: n1_def)
  next
    case False
    then show ?thesis by (auto simp: n1_def)
  qed
  show "distinct (filter (\<lambda>t. t \<noteq> ''Utah'') n1)"
  proof (cases "py_lower c \<in> set acc")
    case True
    with ok have eq: "py_lower c = c" by blast
    then have nu: "c \<noteq> ''Utah''" using lower_neq_Utah [of c] by simp
    have f: "filter (\<lambda>t. t \<noteq> ''Utah'') (remove1 c acc) = remove1 c (filter (\<lambda>t. t \<noteq> ''Utah'') acc)"
      using nu by (induction acc) auto
    have "c \<notin> set (remove1 c (filter (\<lambda>t. t \<noteq> ''Utah'') acc))"
      using d by simp
    with d f nu True eq show ?thesis by (simp add: n1_def)
  next
    case False
    with d show ?thesis by (simp add: n1_def)
  qed
qed

lemma add_if_absent:
  fixes x :: string
  assumes d: "distinct (filter (\<lambda>t. t \<noteq> ''Utah'') n)"
  defines "n' \<equiv> (if x \<notin> set n then n @ [x] else n)"
  shows "set n' = set n \<union> {x}" and "distinct (filter (\<lambda>t. t \<noteq> ''Utah'') n')"
  using d by (auto simp: n'_def)

lemma category_step_inv:
  assumes sg: "py_in ''Utah SGID'' g"
    and ok: "py_lower (category_of g) = category_of g \<or> py_lower (category_of g) \<notin> set acc"
    and d: "distinct (filter (\<lambda>t. t \<noteq> ''Utah'') acc)"
  shows "set (category_step acc g) = set acc \<union> {category_of g, ''SGID'', ''AGRC''}"
    and "distinct (filter (\<lambda>t. t \<noteq> ''Utah'') (category_step acc g))"
proof -
  let ?c = "category_of g"
  define n1 where "n1 = (if py_lower ?c \<in> set acc then remove1 (py_lower ?c) acc @ [?c]
                else if ?c \<notin> set acc then acc @ [?c] else acc)"
  define n2 where "n2 = (if ''SGID'' \<notin> set n1 then n1 @ [''SGID''] else n1)"
  define n3 where "n3 = (if ''AGRC'' \<notin> set n2 then n2 @ [''AGRC''] else n2)"
  have step: "category_step acc g = n3"
    by (simp add: category_step_sgid [OF sg] Let_def n1_def n2_def n3_def)
  have s1: "set n1 = set acc \<union> {?c}" and d1: "distinct (filter (\<lambda>t. t \<noteq> ''Utah'') n1)"
    unfolding n1_def by (rule replace_or_add [OF ok d])+
  have s2: "set n2 = set n1 \<union> {''SGID''}" and d2: "distinct (filter (\<lambda>t. t \<noteq> ''Utah'') n2)"
    unfolding n2_def by (rule add_if_absent [OF d1])+
  have s3: "set n3 = set n2 \<union> {''AGRC''}" and d3: "distinct (filter (\<lambda>t. t \<noteq> ''Utah'') n3)"
    unfolding n3_def by (rule add_if_absent [OF d2])+
  from s1 s2 s3 show "set (category_step acc g) = set acc \<union> {?c, ''SGID'', ''AGRC''}"
    unfolding step by blast
  from d3 show "distinct (filter (\<lambda>t. t \<noteq> ''Utah'') (category_step acc g))"
    unfolding step .
qed


lemma sgid_categories_Cons:
  "sgid_categories (g # gs) =
     (if py_in ''Utah SGID'' g then category_of g # sgid_categories gs else sgid_categories gs)"
  by (simp add: sgid_categories_def)

lemma foldl_category_step_inv:
  assumes "\<forall>c\<in>set (sgid_categories gs).
             py_lower c \<noteq> c \<longrightarrow> py_lower c \<notin> set acc \<and> py_lower c \<notin> set (sgid_categories gs)"
    and "distinct (filter (\<lambda>t. t \<noteq> ''Utah'') acc)"
  shows "set (foldl category_step acc gs)
           = set acc \<union> set (sgid_categories gs)
             \<union> (if sgid_categories gs = [] then {} else {''SGID'', ''AGRC''})
         \<and> distinct (filter (\<lambda>t. t \<noteq> ''Utah'') (foldl category_step acc gs))"
  using assms
proof (induction gs arbitrary: acc)
  case Nil
  then show ?case by (simp add: sgid_categories_def)
next
  case (Cons g gs)
  show ?case
  proof (cases "py_in ''Utah SGID'' g")
    case False
    then have same: "sgid_categories (g # gs) = sgid_categories gs"
      by (simp add: sgid_categories_Cons)
    from Cons.prems have
      "set (foldl category_step acc gs)
           = set acc \<union> set (sgid_categories gs)
             \<union> (if sgid_categories gs = [] then {} else {''SGID'', ''AGRC''})
         \<and> distinct (filter (\<lambda>t. t \<noteq> ''Utah'') (foldl category_step acc gs))"
      unfolding same by (rule Cons.IH)
    then show ?thesis
      unfolding same by (simp add: category_step_not_sgid [OF False])
  next
    case True
    let ?c = "category_of g"
    let ?acc' = "category_step acc g"
    have cats: "sgid_categories (g # gs) = ?c # sgid_categories gs"
      using True by (simp add: sgid_categories_Cons)
    have ok: "py_lower ?c = ?c \<or> py_lower ?c \<notin> set acc"
      using Cons.prems(1) unfolding cats by auto
    have set': "set ?acc' = set acc \<union> {?c, ''SGID'', ''AGRC''}"
      by (rule category_step_inv(1) [OF True ok Cons.prems(2)])
    have dist': "distinct (filter (\<lambda>t. t \<noteq> ''Utah'') ?acc')"
      by (rule category_step_inv(2) [OF True ok Cons.prems(2)])
    have hyp': "\<forall>c\<in>set (sgid_categories gs).
             py_lower c \<noteq> c \<longrightarrow> py_lower c \<notin> set ?acc' \<and> py_lower c \<notin> set (sgid_categories gs)"
    proof (intro ballI impI)
      fix c assume c: "c \<in> set (sgid_categories gs)" and ne: "py_lower c \<noteq> c"
      from Cons.prems(1) c ne have a: "py_lower c \<notin> set acc"
        and b: "py_lower c \<notin> set (?c # sgid_categories gs)"
        unfolding cats by auto
      from a b lower_neq_SGID [of c] lower_neq_AGRC [of c]
      show "py_lower c \<notin> set ?acc' \<and> py_lower c \<notin> set (sgid_categories gs)"
        unfolding set' by auto
    qed
    from Cons.IH [OF hyp' dist'] have
      "set (foldl category_step ?acc' gs)
           = set ?acc' \<union> set (sgid_categories gs)
             \<union> (if sgid_categories gs = [] then {} else {''SGID'', ''AGRC''})"
      and d: "distinct (filter (\<lambda>t. t \<noteq> ''Utah'') (foldl category_step ?acc' gs))"
      by blast+
    then have "set (foldl category_step ?acc' gs)
           = set acc \<union> set (?c # sgid_categories gs) \<union> {''SGID'', ''AGRC''}"
      unfolding set' by auto
    with d show ?thesis unfolding cats by simp
  qed
qed

lemma tags_step_tests:
  "tags_step ttl D U A acc t =
     (if utah_kept ttl t then acc @ [''Utah'']
      else if dropped ttl D t then acc
      else if tag_case t U A \<notin> set acc then acc @ [tag_case t U A] else acc)"
  by (auto simp: tags_step_def utah_kept_def dropped_def Let_def)

lemma py_strip_fixed:
  assumes "s \<noteq> [] \<Longrightarrow> \<not> isspace_c (hd s) \<and> \<not> isspace_c (last s)"
  shows "py_strip s = s"
proof (cases "s = []")
  case True
  then show ?thesis by (simp add: py_strip_def)
next
  case False
  with assms have h: "\<not> isspace_c (hd s)" and l: "\<not> isspace_c (last s)" by simp_all
  from h have a: "dropWhile isspace_c s = s" by (simp add: dropWhile_eq_self_iff)
  from l False have b: "dropWhile isspace_c (rev s) = rev s"
    by (simp add: dropWhile_eq_self_iff hd_rev)
  show ?thesis by (simp add: py_strip_def a b)
qed

lemma word_ok_ends: "word_ok w \<Longrightarrow> \<not> isspace_c (hd w) \<and> \<not> isspace_c (last w)"
  by (cases w) (auto simp: word_ok_def list_all_iff)

lemma py_join_ends:
  "vs \<noteq> [] \<Longrightarrow> list_all word_ok vs \<Longrightarrow>
   py_join '' '' vs \<noteq> [] \<and> hd (py_join '' '' vs) = hd (hd vs)
   \<and> last (py_join '' '' vs) = last (last vs)"
proof (induction vs)
  case Nil
  then show ?case by simp
next
  case (Cons v vs)
  from Cons.prems have v: "v \<noteq> []" by (simp add: word_ok_def)
  show ?case
  proof (cases "vs = []")
    case True
    with v show ?thesis by simp
  next
    case False
    with Cons have "py_join '' '' vs \<noteq> []" and "last (py_join '' '' vs) = last (last vs)"
      by simp_all
    with False v show ?thesis by (simp add: py_join_Cons)
  qed
qed

lemma py_strip_join: "list_all word_ok vs \<Longrightarrow> py_strip (py_join '' '' vs) = py_join '' '' vs"
proof (cases "vs = []")
  case True
  then show ?thesis by (simp add: py_strip_def)
next
  case False
  assume ok: "list_all word_ok vs"
  from False ok have "word_ok (hd vs)" and "word_ok (last vs)"
    by (simp_all add: list_all_iff)
  with py_join_ends [OF False ok] word_ok_ends show ?thesis
    by (intro py_strip_fixed) auto
qed

lemma tag_case_join: "tag_case tag U A = py_join '' '' (map (cased_word U A) (py_split tag))"
  by (simp add: tag_case_def tag_case_loop_map)

lemma cased_words_ok:
  assumes "list_all (\<lambda>w. py_remove_char (CHR ''.'') w \<noteq> []) (py_split tag)"
  shows "list_all word_ok (map (cased_word U A) (py_split tag))"
  using py_split_words_ok [of tag] assms by (simp add: list_all_iff cased_word_ok)

lemma tag_case_strip:
  assumes "list_all (\<lambda>w. py_remove_char (CHR ''.'') w \<noteq> []) (py_split tag)"
  shows "py_strip (tag_case tag U A) = tag_case tag U A"
  unfolding tag_case_join by (rule py_strip_join [OF cased_words_ok [OF assms]])

lemma tag_case_again:
  assumes "list_all (\<lambda>w. py_remove_char (CHR ''.'') w \<noteq> []) (py_split tag)"
  shows "tag_case (tag_case tag U A) U A = tag_case tag U A"
proof -
  let ?vs = "map (cased_word U A) (py_split tag)"
  have split: "py_split (py_join '' '' ?vs) = ?vs"
    by (rule py_split_join [OF cased_words_ok [OF assms]])
  have idem: "map (cased_word U A) ?vs = ?vs"
    by (simp add: cased_word_idem comp_def)
  have "tag_case (py_join '' '' ?vs) U A = py_join '' '' (map (cased_word U A) ?vs)"
    by (simp only: tag_case_join split)
  then show ?thesis by (simp only: tag_case_join idem)
qed

lemma strip_Utah: "py_strip ''Utah'' = ''Utah''"
  by code_simp

lemma Utah_kept_or_dropped: "\<not> utah_kept ttl ''Utah'' \<Longrightarrow> dropped ttl D ''Utah''"
  by (simp add: utah_kept_def dropped_def lower_Utah)

lemma foldl_tags_step_mem:
  "x \<in> set (foldl (tags_step ttl D U A) acc ts) \<Longrightarrow>
   x \<in> set acc \<or> (x = ''Utah'' \<and> (\<exists>t\<in>set ts. utah_kept ttl t))
   \<or> (\<exists>t\<in>set ts. \<not> utah_kept ttl t \<and> \<not> dropped ttl D t \<and> x = tag_case t U A)"
proof (induction ts arbitrary: acc)
  case Nil
  then show ?case by simp
next
  case (Cons t ts)
  from Cons.prems have "x \<in> set (foldl (tags_step ttl D U A) (tags_step ttl D U A acc t) ts)"
    by simp
  from Cons.IH [OF this] show ?case
    by (auto simp: tags_step_tests split: if_splits)
qed

lemma loop_tags_mem:
  assumes "x \<in> set (loop_tags it D U A nt)"
  shows "(x = ''Utah'' \<and> (\<exists>t\<in>set (tags it). utah_kept (tags_check_title it nt) (py_strip t)))
         \<or> (\<exists>t\<in>set (normalised_tags it D nt). x = tag_case t U A)"
  using foldl_tags_step_mem [OF assms [unfolded loop_tags_def]]
  by (auto simp: normalised_tags_def)

lemma foldl_tags_step_rerun:
  assumes "\<forall>x\<in>set xs. (utah_kept ttl (py_strip x) \<longrightarrow> x = ''Utah'')
             \<and> (\<not> utah_kept ttl (py_strip x) \<and> \<not> dropped ttl D (py_strip x)
                  \<longrightarrow> tag_case (py_strip x) U A = x)"
    and "distinct (filter (\<lambda>t. t \<noteq> ''Utah'') (acc @ xs))"
  shows "foldl (tags_step ttl D U A) acc (map py_strip xs)
           = acc @ filter (\<lambda>x. utah_kept ttl (py_strip x) \<or> \<not> dropped ttl D (py_strip x)) xs"
  using assms
proof (induction xs arbitrary: acc)
  case Nil
  show ?case by simp
next
  case (Cons x xs)
  let ?keep = "\<lambda>x. utah_kept ttl (py_strip x) \<or> \<not> dropped ttl D (py_strip x)"
  from Cons.prems(1) have u: "utah_kept ttl (py_strip x) \<longrightarrow> x = ''Utah''"
    and n: "\<not> utah_kept ttl (py_strip x) \<and> \<not> dropped ttl D (py_strip x)
              \<longrightarrow> tag_case (py_strip x) U A = x"
    and rest: "\<forall>x\<in>set xs. (utah_kept ttl (py_strip x) \<longrightarrow> x = ''Utah'')
             \<and> (\<not> utah_kept ttl (py_strip x) \<and> \<not> dropped ttl D (py_strip x)
                  \<longrightarrow> tag_case (py_strip x) U A = x)"
    by simp_all
  have step: "tags_step ttl D U A acc (py_strip x) = (if ?keep x then acc @ [x] else acc)"
  proof (cases "utah_kept ttl (py_strip x)")
    case True
    with u show ?thesis by (simp add: tags_step_tests)
  next
    case False
    show ?thesis
    proof (cases "dropped ttl D (py_strip x)")
      case True
      with False show ?thesis by (simp add: tags_step_tests)
    next
      case nd: False
      with False n have c: "tag_case (py_strip x) U A = x" by simp
      have "x \<noteq> ''Utah''"
      proof
        assume "x = ''Utah''"
        with False nd Utah_kept_or_dropped [of ttl D] show False by (simp add: strip_Utah)
      qed
      with Cons.prems(2) have "x \<notin> set acc" by auto
      with False nd c show ?thesis by (simp add: tags_step_tests)
    qed
  qed
  have d: "distinct (filter (\<lambda>t. t \<noteq> ''Utah'') ((if ?keep x then acc @ [x] else acc) @ xs))"
    using Cons.prems(2) by auto
  from Cons.IH [OF rest d] step show ?case by simp
qed

lemma mset_set_split:
  assumes "finite B" and "finite R"
  shows "mset_set (B - S) + mset_set (R - (S \<union> B)) = mset_set ((B \<union> R) - S)"
proof -
  have "mset_set ((B - S) \<union> (R - (S \<union> B))) = mset_set (B - S) + mset_set (R - (S \<union> B))"
    using assms by (intro mset_set_Union) auto
  moreover have "(B - S) \<union> (R - (S \<union> B)) = (B \<union> R) - S" by auto
  ultimately show ?thesis by simp
qed

lemma single_diff: "{x} - S = (if x \<in> S then {} else {x})"
  by auto

lemma add_if_absent_mset:
  "mset (if x \<notin> set n then n @ [x] else n) = mset n + mset_set ({x} - set n)"
  by (simp add: single_diff)

lemma category_step_mset:
  assumes sg: "py_in ''Utah SGID'' g"
    and ok: "py_lower (category_of g) = category_of g \<or> py_lower (category_of g) \<notin> set acc"
  shows "mset (category_step acc g)
           = mset acc + mset_set ({category_of g, ''SGID'', ''AGRC''} - set acc)"
proof -
  let ?c = "category_of g"
  define n1 where "n1 = (if py_lower ?c \<in> set acc then remove1 (py_lower ?c) acc @ [?c]
                else if ?c \<notin> set acc then acc @ [?c] else acc)"
  define n2 where "n2 = (if ''SGID'' \<notin> set n1 then n1 @ [''SGID''] else n1)"
  define n3 where "n3 = (if ''AGRC'' \<notin> set n2 then n2 @ [''AGRC''] else n2)"
  have step: "category_step acc g = n3"
    by (simp add: category_step_sgid [OF sg] Let_def n1_def n2_def n3_def)
  have m1: "mset n1 = mset acc + mset_set ({?c} - set acc)"
  proof (cases "py_lower ?c \<in> set acc")
    case True
    with ok have "py_lower ?c = ?c" by blast
    with True show ?thesis by (simp add: n1_def)
  next
    case False
    then show ?thesis by (simp add: n1_def single_diff)
  qed
  have "set_mset (mset n1) = set_mset (mset acc + mset_set ({?c} - set acc))"
    by (simp only: m1)
  then have s1: "set n1 = set acc \<union> {?c}"
    by (auto simp: single_diff split: if_splits)
  have m2: "mset n2 = mset n1 + mset_set ({''SGID''} - set n1)"
    unfolding n2_def by (rule add_if_absent_mset)
  have s2: "set n2 = set n1 \<union> {''SGID''}" by (auto simp: n2_def)
  have m3: "mset n3 = mset n2 + mset_set ({''AGRC''} - set n2)"
    unfolding n3_def by (rule add_if_absent_mset)
  have "mset n3 = mset acc + (mset_set ({?c} - set acc)
                   + (mset_set ({''SGID''} - (set acc \<union> {?c}))
                      + mset_set ({''AGRC''} - ((set acc \<union> {?c}) \<union> {''SGID''}))))"
    by (simp add: m3 m2 m1 s2 s1)
  also have "mset_set ({''SGID''} - (set acc \<union> {?c}))
                      + mset_set ({''AGRC''} - ((set acc \<union> {?c}) \<union> {''SGID''}))
             = mset_set (({''SGID''} \<union> {''AGRC''}) - (set acc \<union> {?c}))"
    by (rule mset_set_split) simp_all
  also have "mset_set ({?c} - set acc)
              + mset_set (({''SGID''} \<union> {''AGRC''}) - (set acc \<union> {?c}))
             = mset_set (({?c} \<union> ({''SGID''} \<union> {''AGRC''})) - set acc)"
    by (rule mset_set_split) simp_all
  finally show ?thesis unfolding step by (simp add: insert_commute)
qed


lemma required_tags_Cons:
  "py_in ''Utah SGID'' g \<Longrightarrow>
   set (required_tags (g # gs)) = {category_of g, ''SGID'', ''AGRC''} \<union> set (required_tags gs)"
  by (auto simp: required_tags_def sgid_categories_Cons)

lemma required_tags_skip:
  "\<not> py_in ''Utah SGID'' g \<Longrightarrow> required_tags (g # gs) = required_tags gs"
  by (simp add: required_tags_def sgid_categories_Cons)

lemma set_required_tags:
  "set (required_tags gs)
     = set (sgid_categories gs) \<union> (if sgid_categories gs = [] then {} else {''SGID'', ''AGRC''})"
  by (simp add: required_tags_def)

lemma foldl_category_step_mset:
  assumes "\<forall>c\<in>set (sgid_categories gs).
             py_lower c \<noteq> c \<longrightarrow> py_lower c \<notin> set acc \<and> py_lower c \<notin> set (sgid_categories gs)"
    and "distinct (filter (\<lambda>t. t \<noteq> ''Utah'') acc)"
  shows "mset (foldl category_step acc gs)
           = mset acc + mset_set (set (required_tags gs) - set acc)"
  using assms
proof (induction gs arbitrary: acc)
  case Nil
  show ?case by (simp add: required_tags_def sgid_categories_def)
next
  case (Cons g gs)
  show ?case
  proof (cases "py_in ''Utah SGID'' g")
    case False
    then have same: "sgid_categories (g # gs) = sgid_categories gs"
      by (simp add: sgid_categories_Cons)
    from Cons.prems have
      "mset (foldl category_step acc gs) = mset acc + mset_set (set (required_tags gs) - set acc)"
      unfolding same by (rule Cons.IH)
    then show ?thesis
      by (simp add: category_step_not_sgid [OF False] required_tags_skip [OF False])
  next
    case True
    let ?c = "category_of g"
    let ?acc' = "category_step acc g"
    have cats: "sgid_categories (g # gs) = ?c # sgid_categories gs"
      using True by (simp add: sgid_categories_Cons)
    have ok: "py_lower ?c = ?c \<or> py_lower ?c \<notin> set acc"
      using Cons.prems(1) unfolding cats by auto
    have set': "set ?acc' = set acc \<union> {?c, ''SGID'', ''AGRC''}"
      by (rule category_step_inv(1) [OF True ok Cons.prems(2)])
    have dist': "distinct (filter (\<lambda>t. t \<noteq> ''Utah'') ?acc')"
      by (rule category_step_inv(2) [OF True ok Cons.prems(2)])
    have hyp': "\<forall>c\<in>set (sgid_categories gs).
             py_lower c \<noteq> c \<longrightarrow> py_lower c \<notin> set ?acc' \<and> py_lower c \<notin> set (sgid_categories gs)"
    proof (intro ballI impI)
      fix c assume c: "c \<in> set (sgid_categories gs)" and ne: "py_lower c \<noteq> c"
      from Cons.prems(1) c ne have a: "py_lower c \<notin> set acc"
        and b: "py_lower c \<notin> set (?c # sgid_categories gs)"
        unfolding cats by auto
      from a b lower_neq_SGID [of c] lower_neq_AGRC [of c]
      show "py_lower c \<notin> set ?acc' \<and> py_lower c \<notin> set (sgid_categories gs)"
        unfolding set' by auto
    qed
    have "mset (foldl category_step ?acc' gs)
            = mset ?acc' + mset_set (set (required_tags gs) - set ?acc')"
      by (rule Cons.IH [OF hyp' dist'])
    also have "mset ?acc' = mset acc + mset_set ({?c, ''SGID'', ''AGRC''} - set acc)"
      by (rule category_step_mset [OF True ok])
    finally have "mset (foldl category_step ?acc' gs)
            = mset acc + (mset_set ({?c, ''SGID'', ''AGRC''} - set acc)
               + mset_set (set (required_tags gs) - (set acc \<union> {?c, ''SGID'', ''AGRC''})))"
      by (simp add: set')
    also have "mset_set ({?c, ''SGID'', ''AGRC''} - set acc)
               + mset_set (set (required_tags gs) - (set acc \<union> {?c, ''SGID'', ''AGRC''}))
               = mset_set (({?c, ''SGID'', ''AGRC''} \<union> set (required_tags gs)) - set acc)"
      by (rule mset_set_split) simp_all
    finally show ?thesis
      by (simp only: foldl_Cons required_tags_Cons [OF True])
  qed
qed

lemma mset_rerun:
  fixes T1 :: "string list"
  assumes dist: "distinct (filter (\<lambda>t. t \<noteq> ''Utah'') T1)"
    and req: "set R \<subseteq> set T1"
    and drop: "\<forall>x\<in>set T1. \<not> keep x \<longrightarrow> x \<in> set R \<and> x \<noteq> ''Utah''"
  shows "mset (filter keep T1) + mset_set (set R - set (filter keep T1)) = mset T1"
proof -
  let ?dropped = "filter (\<lambda>x. \<not> keep x) T1"
  have "?dropped = filter (\<lambda>x. \<not> keep x) (filter (\<lambda>t. t \<noteq> ''Utah'') T1)"
    unfolding filter_filter using drop by (intro filter_cong refl) auto
  then have d: "distinct ?dropped"
    using dist by (metis distinct_filter)
  have "set R - set (filter keep T1) = set ?dropped"
    using req drop by auto
  then have "mset_set (set R - set (filter keep T1)) = mset_set (set ?dropped)"
    by (simp only:)
  also have "\<dots> = mset ?dropped"
    by (rule mset_set_set [OF d])
  finally show ?thesis by simp
qed


lemma first_output_tags:
  assumes tags_ok: "\<forall>t\<in>set (tags it).
        input_tag_ok (tags_check_title it nt) D U A (required_tags (fst (collect_groups it))) t"
    and x: "x \<in> set (loop_tags it D U A nt)"
  shows "(utah_kept (tags_check_title it nt) (py_strip x) \<longrightarrow> x = ''Utah'')
         \<and> (\<not> utah_kept (tags_check_title it nt) (py_strip x)
              \<and> \<not> dropped (tags_check_title it nt) D (py_strip x)
              \<longrightarrow> tag_case (py_strip x) U A = x)
         \<and> (\<not> utah_kept (tags_check_title it nt) (py_strip x)
              \<and> dropped (tags_check_title it nt) D (py_strip x)
              \<longrightarrow> x \<in> set (required_tags (fst (collect_groups it))) \<and> x \<noteq> ''Utah'')"
proof -
  let ?ttl = "tags_check_title it nt"
  let ?R = "required_tags (fst (collect_groups it))"
  from loop_tags_mem [OF x] show ?thesis
  proof
    assume "x = ''Utah'' \<and> (\<exists>t\<in>set (tags it). utah_kept ?ttl (py_strip t))"
    then obtain t where xu: "x = ''Utah''" and t: "t \<in> set (tags it)"
      and k: "utah_kept ?ttl (py_strip t)" by blast
    from tags_ok t have "input_tag_ok ?ttl D U A ?R t" by blast
    with k have "''Utah'' \<notin> set (py_split ?ttl)"
      by (simp add: input_tag_ok_def Let_def)
    then have "utah_kept ?ttl ''Utah''" by (simp add: utah_kept_def lower_Utah)
    with xu show ?thesis by (simp add: strip_Utah)
  next
    assume "\<exists>t\<in>set (normalised_tags it D nt). x = tag_case t U A"
    then obtain t where t: "t \<in> set (tags it)"
      and nk: "\<not> utah_kept ?ttl (py_strip t)" and nd: "\<not> dropped ?ttl D (py_strip t)"
      and xc: "x = tag_case (py_strip t) U A"
      by (auto simp: normalised_tags_def)
    from tags_ok t have "input_tag_ok ?ttl D U A ?R t" by blast
    with nk nd have words: "list_all (\<lambda>w. py_remove_char (CHR ''.'') w \<noteq> []) (py_split (py_strip t))"
      and u: "utah_kept ?ttl x \<longrightarrow> x = ''Utah''"
      and d: "\<not> utah_kept ?ttl x \<and> dropped ?ttl D x \<longrightarrow> x \<in> set ?R \<and> x \<noteq> ''Utah''"
      unfolding xc by (simp_all add: input_tag_ok_def Let_def split: if_splits)
    have strip: "py_strip x = x" unfolding xc by (rule tag_case_strip [OF words])
    have again: "tag_case x U A = x" unfolding xc by (rule tag_case_again [OF words])
    from u d again show ?thesis unfolding strip by blast
  qed
qed

lemma required_output_tags:
  assumes req_ok: "\<forall>x\<in>set R. required_tag_ok ttl D U A x"
    and x: "x \<in> set R"
  shows "(utah_kept ttl (py_strip x) \<longrightarrow> x = ''Utah'')
         \<and> (\<not> utah_kept ttl (py_strip x) \<and> \<not> dropped ttl D (py_strip x)
              \<longrightarrow> tag_case (py_strip x) U A = x)
         \<and> (\<not> utah_kept ttl (py_strip x) \<and> dropped ttl D (py_strip x)
              \<longrightarrow> x \<in> set R \<and> x \<noteq> ''Utah'')"
proof -
  from req_ok x have "required_tag_ok ttl D U A x" by blast
  with x show ?thesis by (auto simp: required_tag_ok_def Let_def split: if_splits)
qed

lemma categories_not_in_loop_tags:
  assumes "categories_ok it D U A nt"
  shows "\<forall>c\<in>set (sgid_categories (fst (collect_groups it))).
           py_lower c \<noteq> c \<longrightarrow>
           py_lower c \<notin> set (loop_tags it D U A nt)
           \<and> py_lower c \<notin> set (sgid_categories (fst (collect_groups it)))"
proof (intro ballI impI)
  fix c assume c: "c \<in> set (sgid_categories (fst (collect_groups it)))" and ne: "py_lower c \<noteq> c"
  with assms have a: "py_lower c \<notin> (\<lambda>t. tag_case t U A) ` set (normalised_tags it D nt)"
    and b: "py_lower c \<notin> set (sgid_categories (fst (collect_groups it)))"
    by (auto simp: categories_ok_def list_all_iff)
  have "py_lower c \<notin> set (loop_tags it D U A nt)"
  proof
    assume "py_lower c \<in> set (loop_tags it D U A nt)"
    from loop_tags_mem [OF this] a lower_neq_Utah [of c] show False by blast
  qed
  with b show "py_lower c \<notin> set (loop_tags it D U A nt)
               \<and> py_lower c \<notin> set (sgid_categories (fst (collect_groups it)))" by blast
qed

text \<open>
  Claim C3 says that a second run of \<open>tags_check\<close> on its own output reports no change.
  The first run tests the raw tag against the title and the second run tests the
  normalised tag: for the title \<open>Utah Roads\<close> and the tag \<open>roads\<close>, the first run gives
  \<open>Roads\<close>, and the second run drops \<open>Roads\<close> as a word of the title and reports a change
  again.
\<close>

theorem second_pass_drops_normalised_tag:
  "tags_check
     \<lparr>itemid = ''abc'', title = ''Utah Roads'', tags = [''roads''], shared_with_groups = Some [],
      protected = True, manager_properties = None\<rparr>
     tags_to_delete uppercased_tags articles None
   = PDict [(''fix_tags'', PStr ''Y''), (''old_tags'', PStrList [''roads'']),
            (''new_tags'', PStrList [''Roads''])]
   \<and> tags_check
       \<lparr>itemid = ''abc'', title = ''Utah Roads'', tags = [''Roads''], shared_with_groups = Some [],
        protected = True, manager_properties = None\<rparr>
       tags_to_delete uppercased_tags articles None
     = PDict [(''fix_tags'', PStr ''Y''), (''old_tags'', PStrList [''Roads'']),
              (''new_tags'', PStrList [])]"
  by code_simp

text \<open>
  Claim C3, amended. The second run of \<open>tags_check\<close>, on the item with the tag list of the
  first run as its tags and with the same title, word lists and groups, reports no change
  when the following holds of the input, which is ASCII. Every tag of the item, stripped,
  is kept as \<open>Utah\<close> under a title without the word \<open>Utah\<close>, or is dropped by the delete
  list or the title, or has no word made of periods only and a normalised form that the
  tests of the first loop keep as \<open>Utah\<close> only if it is \<open>Utah\<close> and drop only if it is a tag
  other than \<open>Utah\<close> that the groups add again (\<open>input_tag_ok\<close>). Every tag that the groups
  add, a category, \<open>SGID\<close> or \<open>AGRC\<close>, is kept as \<open>Utah\<close> being \<open>Utah\<close>, or dropped not
  being \<open>Utah\<close>, or normalised to itself (\<open>required_tag_ok\<close>). And no category that differs
  from its lowercase form has that form among the normalised tags or the categories
  (\<open>categories_ok\<close>).
\<close>

theorem tags_check_second_pass_unchanged:
  assumes ascii: "ascii_input it D U A nt"
    and tags_ok: "\<forall>t\<in>set (tags it).
        input_tag_ok (tags_check_title it nt) D U A (required_tags (fst (collect_groups it))) t"
    and req_ok: "\<forall>x\<in>set (required_tags (fst (collect_groups it))).
        required_tag_ok (tags_check_title it nt) D U A x"
    and cats_ok: "categories_ok it D U A nt"
  shows "tags_check (it\<lparr>tags := tags_check_new_tags it D U A nt\<rparr>) D U A nt
           = PDict [(''fix_tags'', PStr ''N''), (''old_tags'', PStr ''''),
                    (''new_tags'', PStr '''')]"
proof -
  let ?ttl = "tags_check_title it nt"
  let ?gs = "fst (collect_groups it)"
  let ?R = "required_tags ?gs"
  let ?L1 = "loop_tags it D U A nt"
  let ?T1 = "tags_check_new_tags it D U A nt"
  let ?it' = "it\<lparr>tags := ?T1\<rparr>"
  let ?keep = "\<lambda>x. utah_kept ?ttl (py_strip x) \<or> \<not> dropped ?ttl D (py_strip x)"
  let ?L2 = "filter ?keep ?T1"
  have T1: "?T1 = foldl category_step ?L1 ?gs" by (rule new_tags_eq)
  have L1_distinct: "distinct (filter (\<lambda>t. t \<noteq> ''Utah'') ?L1)"
    unfolding loop_tags_def by (rule foldl_tags_step_distinct) simp
  note cats = categories_not_in_loop_tags [OF cats_ok]
  from foldl_category_step_inv [OF cats L1_distinct]
  have T1_set: "set ?T1 = set ?L1 \<union> set ?R"
    and T1_distinct: "distinct (filter (\<lambda>t. t \<noteq> ''Utah'') ?T1)"
    unfolding T1 set_required_tags by blast+
  have each: "(utah_kept ?ttl (py_strip x) \<longrightarrow> x = ''Utah'')
         \<and> (\<not> utah_kept ?ttl (py_strip x) \<and> \<not> dropped ?ttl D (py_strip x)
              \<longrightarrow> tag_case (py_strip x) U A = x)
         \<and> (\<not> utah_kept ?ttl (py_strip x) \<and> dropped ?ttl D (py_strip x)
              \<longrightarrow> x \<in> set ?R \<and> x \<noteq> ''Utah'')" if "x \<in> set ?T1" for x
  proof (cases "x \<in> set ?L1")
    case True
    then show ?thesis by (rule first_output_tags [OF tags_ok])
  next
    case False
    with that T1_set have "x \<in> set ?R" by blast
    then show ?thesis by (rule required_output_tags [OF req_ok])
  qed
  have same_title: "tags_check_title ?it' nt = ?ttl"
    by (simp add: tags_check_title_def split: option.splits)
  have same_groups: "collect_groups ?it' = collect_groups it"
    by (simp add: collect_groups_def)
  have "foldl (tags_step ?ttl D U A) [] (map py_strip ?T1) = [] @ ?L2"
  proof (rule foldl_tags_step_rerun)
    show "\<forall>x\<in>set ?T1. (utah_kept ?ttl (py_strip x) \<longrightarrow> x = ''Utah'')
             \<and> (\<not> utah_kept ?ttl (py_strip x) \<and> \<not> dropped ?ttl D (py_strip x)
                  \<longrightarrow> tag_case (py_strip x) U A = x)"
      using each by blast
    show "distinct (filter (\<lambda>t. t \<noteq> ''Utah'') ([] @ ?T1))"
      using T1_distinct by simp
  qed
  then have L2: "loop_tags ?it' D U A nt = ?L2"
    by (simp add: loop_tags_def same_title)
  have T2: "tags_check_new_tags ?it' D U A nt = foldl category_step ?L2 ?gs"
    by (simp only: new_tags_eq [of ?it'] L2 same_groups)
  have cats2: "\<forall>c\<in>set (sgid_categories ?gs).
             py_lower c \<noteq> c \<longrightarrow> py_lower c \<notin> set ?L2 \<and> py_lower c \<notin> set (sgid_categories ?gs)"
  proof (intro ballI impI)
    fix c assume c: "c \<in> set (sgid_categories ?gs)" and ne: "py_lower c \<noteq> c"
    with cats have a: "py_lower c \<notin> set ?L1" and b: "py_lower c \<notin> set (sgid_categories ?gs)"
      by blast+
    from a b lower_neq_SGID [of c] lower_neq_AGRC [of c] have "py_lower c \<notin> set ?T1"
      unfolding T1_set set_required_tags by (auto split: if_splits)
    with b show "py_lower c \<notin> set ?L2 \<and> py_lower c \<notin> set (sgid_categories ?gs)" by simp
  qed
  have "filter (\<lambda>t. t \<noteq> ''Utah'') ?L2 = filter ?keep (filter (\<lambda>t. t \<noteq> ''Utah'') ?T1)"
    unfolding filter_filter by (intro filter_cong refl) auto
  then have L2_distinct: "distinct (filter (\<lambda>t. t \<noteq> ''Utah'') ?L2)"
    using T1_distinct by (simp only: distinct_filter)
  have "mset (foldl category_step ?L2 ?gs) = mset ?L2 + mset_set (set ?R - set ?L2)"
    by (rule foldl_category_step_mset [OF cats2 L2_distinct])
  also have "\<dots> = mset ?T1"
  proof (rule mset_rerun [OF T1_distinct])
    show "set ?R \<subseteq> set ?T1" unfolding T1_set by blast
    show "\<forall>x\<in>set ?T1. \<not> ?keep x \<longrightarrow> x \<in> set ?R \<and> x \<noteq> ''Utah''"
      using each by blast
  qed
  finally have "mset (tags_check_new_tags ?it' D U A nt) = mset (tags ?it')"
    by (simp add: T2)
  then have "sort (tags_check_new_tags ?it' D U A nt) = sort (tags ?it')"
    by (intro properties_for_sort) simp_all
  then show ?thesis
    by (simp add: tags_check_def Let_def)
qed


theorem tags_check_second_pass_unchanged_witness:
  "ascii_input
     \<lparr>itemid = ''abc'', title = ''Utah Health Care Facilities'',
      tags = [''hospitals'', ''.SD'', '' Care''],
      shared_with_groups = Some [Some ''Utah SGID Health''], protected = True,
      manager_properties = None\<rparr>
     tags_to_delete uppercased_tags articles None
   \<and> list_all
       (input_tag_ok ''Utah Health Care Facilities'' tags_to_delete uppercased_tags articles
          (required_tags [''Utah SGID Health'']))
       [''hospitals'', ''.SD'', '' Care'']
   \<and> list_all
       (required_tag_ok ''Utah Health Care Facilities'' tags_to_delete uppercased_tags articles)
       (required_tags [''Utah SGID Health''])
   \<and> categories_ok
       \<lparr>itemid = ''abc'', title = ''Utah Health Care Facilities'',
        tags = [''hospitals'', ''.SD'', '' Care''],
        shared_with_groups = Some [Some ''Utah SGID Health''], protected = True,
        manager_properties = None\<rparr>
       tags_to_delete uppercased_tags articles None
   \<and> tags_check
       \<lparr>itemid = ''abc'', title = ''Utah Health Care Facilities'',
        tags = [''hospitals'', ''.SD'', '' Care''],
        shared_with_groups = Some [Some ''Utah SGID Health''], protected = True,
        manager_properties = None\<rparr>
       tags_to_delete uppercased_tags articles None
     = PDict [(''fix_tags'', PStr ''Y''),
              (''old_tags'', PStrList [''hospitals'', ''.SD'', '' Care'']),
              (''new_tags'', PStrList [''Hospitals'', ''Health'', ''SGID'', ''AGRC''])]
   \<and> tags_check
       \<lparr>itemid = ''abc'', title = ''Utah Health Care Facilities'',
        tags = [''Hospitals'', ''Health'', ''SGID'', ''AGRC''],
        shared_with_groups = Some [Some ''Utah SGID Health''], protected = True,
        manager_properties = None\<rparr>
       tags_to_delete uppercased_tags articles None
     = PDict [(''fix_tags'', PStr ''N''), (''old_tags'', PStr ''''), (''new_tags'', PStr '''')]"
proof -
  let ?it = "\<lparr>itemid = ''abc'', title = ''Utah Health Care Facilities'',
      tags = [''hospitals'', ''.SD'', '' Care''],
      shared_with_groups = Some [Some ''Utah SGID Health''], protected = True,
      manager_properties = None\<rparr>"
  have ttl: "tags_check_title ?it None = ''Utah Health Care Facilities''"
    by code_simp
  have gs: "fst (collect_groups ?it) = [''Utah SGID Health'']"
    by code_simp
  have new: "tags_check_new_tags ?it tags_to_delete uppercased_tags articles None
             = [''Hospitals'', ''Health'', ''SGID'', ''AGRC'']"
    by code_simp
  have first: "tags_check ?it tags_to_delete uppercased_tags articles None
      = PDict [(''fix_tags'', PStr ''Y''),
               (''old_tags'', PStrList [''hospitals'', ''.SD'', '' Care'']),
               (''new_tags'', PStrList [''Hospitals'', ''Health'', ''SGID'', ''AGRC''])]"
    by code_simp
  have h1: "ascii_input ?it tags_to_delete uppercased_tags articles None"
    by code_simp
  have h2': "list_all
       (input_tag_ok ''Utah Health Care Facilities'' tags_to_delete uppercased_tags articles
          (required_tags [''Utah SGID Health'']))
       [''hospitals'', ''.SD'', '' Care'']"
    by code_simp
  then have h2: "\<forall>t\<in>set (tags ?it).
      input_tag_ok (tags_check_title ?it None) tags_to_delete uppercased_tags articles
        (required_tags (fst (collect_groups ?it))) t"
    unfolding ttl gs by (simp add: list_all_iff)
  have h3': "list_all
       (required_tag_ok ''Utah Health Care Facilities'' tags_to_delete uppercased_tags articles)
       (required_tags [''Utah SGID Health''])"
    by code_simp
  then have h3: "\<forall>x\<in>set (required_tags (fst (collect_groups ?it))).
      required_tag_ok (tags_check_title ?it None) tags_to_delete uppercased_tags articles x"
    unfolding ttl gs by (simp add: list_all_iff)
  have h4: "categories_ok ?it tags_to_delete uppercased_tags articles None"
    by code_simp
  from tags_check_second_pass_unchanged [OF h1 h2 h3 h4] new first h1 h2' h3' h4
  show ?thesis by simp
qed

end
